theory Spec2Isabelle
  imports Main "HOL-Library.Sublist" "HOL-Library.AList" "HOL-Library.Code_Target_Nat"
begin

section \<open>JavaScript values\<close>

text \<open>
  The values that flow through \<^verbatim>\<open>gmlib.js\<close>. A number is an IEEE double whose value is
  an integer (\<open>Fin\<close>), an infinity or \<open>NaN\<close>: the timestamps of
  \<^verbatim>\<open>new Date().getTime()\<close> and whole-second TTLs are integers. Every operation below
  that produces a number rounds it to a double (\<open>to_double\<close>), so the \<open>Fin n\<close> that the
  program computes are doubles; below \<open>2^53\<close> in magnitude (\<open>safe_int\<close>) every integer is
  one. A \<open>Fin n\<close> that comes from outside (an argument, the result of a producer) is a
  value of the program only if \<open>n\<close> is a double; the theorems below bound such numbers by
  \<open>safe_int\<close> where their size matters. Fractions and the sign of zero are not
  represented; where a conversion would produce a fraction, the model says so (\<open>None\<close>,
  \<open>Outside_model\<close>) instead of guessing.
  A string is a list of code units below 256. An object is the list of its own
  properties in property order.
\<close>

datatype number = Fin int | NaN | PosInf | NegInf

datatype jsval =
    Undefined
  | Null
  | Bool bool
  | Num number
  | Str string
  | Arr "jsval list"
  | Obj "(string \<times> jsval) list"

text \<open>\<^verbatim>\<open>if (x)\<close>, \<^verbatim>\<open>x || y\<close>: ToBoolean.\<close>

fun truthy :: "jsval \<Rightarrow> bool" where
  "truthy Undefined = False"
| "truthy Null = False"
| "truthy (Bool b) = b"
| "truthy (Num (Fin n)) = (n \<noteq> 0)"
| "truthy (Num NaN) = False"
| "truthy (Num PosInf) = True"
| "truthy (Num NegInf) = True"
| "truthy (Str s) = (s \<noteq> [])"
| "truthy (Arr xs) = True"
| "truthy (Obj ps) = True"

definition js_or :: "jsval \<Rightarrow> jsval \<Rightarrow> jsval" where
  "js_or a b = (if truthy a then a else b)"

subsection \<open>Decimal digits\<close>

definition is_digit :: "char \<Rightarrow> bool" where
  "is_digit c = (c \<in> set ''0123456789'')"

definition digit_char :: "nat \<Rightarrow> char" where
  "digit_char d = ''0123456789'' ! d"

definition digit_val :: "char \<Rightarrow> nat" where
  "digit_val c = of_char c - 48"

fun show_nat :: "nat \<Rightarrow> string" where
  "show_nat n = (if n < 10 then [digit_char n] else show_nat (n div 10) @ [digit_char (n mod 10)])"

declare show_nat.simps [simp del]

definition show_int :: "int \<Rightarrow> string" where
  "show_int i = (if i < 0 then CHR ''-'' # show_nat (nat (- i)) else show_nat (nat i))"

definition read_nat :: "string \<Rightarrow> nat" where
  "read_nat ds = foldl (\<lambda>n c. 10 * n + digit_val c) 0 ds"

subsection \<open>Doubles\<close>

text \<open>
  The integers below \<open>2^53\<close> in magnitude: each is a double, and sums, differences and
  products that stay among them are exact.
\<close>

definition safe_int :: "int \<Rightarrow> bool" where
  "safe_int n = (\<bar>n\<bar> < 9007199254740992)"

text \<open>The number of bits of a positive integer.\<close>

function bit_length :: "int \<Rightarrow> nat" where
  "bit_length n = (if n \<le> 0 then 0 else Suc (bit_length (n div 2)))"
  by auto

termination
  by (relation "measure nat") auto

declare bit_length.simps [simp del]

text \<open>
  Rounding a magnitude to the nearest double, ties to the even significand (the rounding
  of every IEEE operation and of the conversion of a decimal literal): an integer of more
  than 53 bits keeps its 53 leading bits, rounded on the bits that are dropped.
\<close>

definition round_magnitude :: "int \<Rightarrow> int" where
  "round_magnitude a =
     (if a < 9007199254740992 then a
      else let e = bit_length a - 53;
               q = a div 2 ^ e;
               r = a mod 2 ^ e
           in if 2 ^ e < 2 * r \<or> (2 * r = 2 ^ e \<and> odd q) then (q + 1) * 2 ^ e
              else q * 2 ^ e)"

text \<open>
  The double nearest to an integer: a safe integer itself, otherwise its magnitude rounded;
  a rounded magnitude of more than 1024 bits (\<open>2^1024\<close> or more) is an infinity.
\<close>

definition to_double :: "int \<Rightarrow> number" where
  "to_double n =
     (if safe_int n then Fin n
      else let m = round_magnitude \<bar>n\<bar>
           in if 1024 < bit_length m then (if n < 0 then NegInf else PosInf)
              else Fin (if n < 0 then - m else m))"

text \<open>
  Number::toString of an integer-valued double. A safe integer prints all its decimal
  digits. A larger one prints the decimal with the fewest significant digits that still
  rounds to it (of two such, the nearer; of two equally near, the even one): in full,
  padded with zeros, up to 21 digits, and in exponent form beyond. \<open>candidate x p\<close> is
  the choice among the multiples of the power of ten \<open>p\<close>, if one rounds to \<open>x\<close>.
\<close>

definition candidate :: "int \<Rightarrow> int \<Rightarrow> int option" where
  "candidate x p =
     (let lo = (x div p) * p;
          hi = lo + p;
          ok_lo = (round_magnitude lo = x);
          ok_hi = (round_magnitude hi = x)
      in if ok_lo \<and> ok_hi then
           Some (if x - lo < hi - x then lo
                 else if hi - x < x - lo then hi
                 else if even (x div p) then lo else hi)
         else if ok_lo then Some lo
         else if ok_hi then Some hi
         else None)"

fun shortest :: "int \<Rightarrow> nat \<Rightarrow> int" where
  "shortest x 0 = x"
| "shortest x (Suc e) =
     (case candidate x (10 ^ Suc e) of Some c \<Rightarrow> c | None \<Rightarrow> shortest x e)"

definition big_text :: "int \<Rightarrow> string" where
  "big_text x =
     (let ds = show_nat (nat (shortest x (length (show_nat (nat x)) - 1)));
          n = length ds
      in if n \<le> 21 then ds
         else let sig = rev (dropWhile (\<lambda>c. c = CHR ''0'') (rev ds))
              in hd sig # (if tl sig = [] then [] else CHR ''.'' # tl sig)
                 @ ''e+'' @ show_nat (n - 1))"

definition Number_toString :: "int \<Rightarrow> string" where
  "Number_toString n =
     (if safe_int n then show_int n
      else if n < 0 then CHR ''-'' # big_text (- n)
      else big_text n)"

subsection \<open>ToString and ToNumber\<close>

fun join :: "string \<Rightarrow> string list \<Rightarrow> string" where
  "join sep [] = []"
| "join sep [x] = x"
| "join sep (x # y # ys) = x @ sep @ join sep (y # ys)"

text \<open>
  ToString; an array converts as \<^verbatim>\<open>Array.prototype.join\<close> does, a plain object as
  \<^verbatim>\<open>[object Object]\<close>.
\<close>

fun ToString :: "jsval \<Rightarrow> string" where
  "ToString Undefined = ''undefined''"
| "ToString Null = ''null''"
| "ToString (Bool b) = (if b then ''true'' else ''false'')"
| "ToString (Num (Fin n)) = Number_toString n"
| "ToString (Num NaN) = ''NaN''"
| "ToString (Num PosInf) = ''Infinity''"
| "ToString (Num NegInf) = ''-Infinity''"
| "ToString (Str s) = s"
| "ToString (Arr xs) =
     join '','' (map (\<lambda>x. if x = Undefined \<or> x = Null then [] else ToString x) xs)"
| "ToString (Obj ps) = ''[object Object]''"

definition is_str_ws :: "char \<Rightarrow> bool" where
  "is_str_ws c = (of_char c \<in> {9, 10, 11, 12, 13, 32, 160 :: nat})"

definition trim :: "string \<Rightarrow> string" where
  "trim s = rev (dropWhile is_str_ws (rev (dropWhile is_str_ws s)))"

text \<open>
  StringToNumber on the strings whose value the model can hold: blank is 0, an optionally
  signed run of digits is the double nearest to that integer, an optionally signed
  \<^verbatim>\<open>Infinity\<close> is that infinity, any other string with no digit is \<open>NaN\<close>. Every other
  string (a fraction, an exponent, a hex literal, or a malformed mix of those) is outside
  the model: \<open>None\<close>.
\<close>

definition StringToNumber :: "string \<Rightarrow> number option" where
  "StringToNumber s =
     (let t = trim s;
          neg = (t \<noteq> [] \<and> hd t = CHR ''-'');
          d = (if t \<noteq> [] \<and> (hd t = CHR ''-'' \<or> hd t = CHR ''+'') then tl t else t)
      in if t = [] then Some (Fin 0)
         else if d \<noteq> [] \<and> list_all is_digit d
           then Some (to_double (if neg then - int (read_nat d) else int (read_nat d)))
         else if d = ''Infinity'' then Some (if neg then NegInf else PosInf)
         else if list_ex is_digit t then None
         else Some NaN)"

fun ToNumber :: "jsval \<Rightarrow> number option" where
  "ToNumber Undefined = Some NaN"
| "ToNumber Null = Some (Fin 0)"
| "ToNumber (Bool b) = Some (Fin (if b then 1 else 0))"
| "ToNumber (Num n) = Some n"
| "ToNumber (Str s) = StringToNumber s"
| "ToNumber (Arr xs) = StringToNumber (ToString (Arr xs))"
| "ToNumber (Obj ps) = Some NaN"

text \<open>
  The operators of the code on numbers: \<^verbatim>\<open>*\<close>, \<^verbatim>\<open>-\<close> and \<^verbatim>\<open>>\<close>. A product and a
  difference of two finite numbers are the exact result rounded to a double; an infinity
  times zero and the difference of two equal infinities are \<open>NaN\<close>; no comparison with
  \<open>NaN\<close> holds.
\<close>

fun times_num :: "number \<Rightarrow> number \<Rightarrow> number" where
  "times_num (Fin a) (Fin b) = to_double (a * b)"
| "times_num NaN _ = NaN"
| "times_num _ NaN = NaN"
| "times_num PosInf (Fin b) = (if b = 0 then NaN else if b < 0 then NegInf else PosInf)"
| "times_num NegInf (Fin b) = (if b = 0 then NaN else if b < 0 then PosInf else NegInf)"
| "times_num (Fin a) PosInf = (if a = 0 then NaN else if a < 0 then NegInf else PosInf)"
| "times_num (Fin a) NegInf = (if a = 0 then NaN else if a < 0 then PosInf else NegInf)"
| "times_num PosInf PosInf = PosInf"
| "times_num PosInf NegInf = NegInf"
| "times_num NegInf PosInf = NegInf"
| "times_num NegInf NegInf = PosInf"

fun minus_num :: "number \<Rightarrow> number \<Rightarrow> number" where
  "minus_num (Fin a) (Fin b) = to_double (a - b)"
| "minus_num NaN _ = NaN"
| "minus_num _ NaN = NaN"
| "minus_num PosInf PosInf = NaN"
| "minus_num NegInf NegInf = NaN"
| "minus_num PosInf _ = PosInf"
| "minus_num NegInf _ = NegInf"
| "minus_num (Fin a) PosInf = NegInf"
| "minus_num (Fin a) NegInf = PosInf"

fun gt_num :: "number \<Rightarrow> number \<Rightarrow> bool" where
  "gt_num (Fin a) (Fin b) = (a > b)"
| "gt_num PosInf (Fin b) = True"
| "gt_num PosInf NegInf = True"
| "gt_num (Fin a) NegInf = True"
| "gt_num _ _ = False"

text \<open>
  \<^verbatim>\<open>item.stored\<close>, \<^verbatim>\<open>item.value\<close>: reading a property that no built-in prototype
  defines. On \<^verbatim>\<open>null\<close> and \<^verbatim>\<open>undefined\<close> the read throws a TypeError (\<open>None\<close>); on
  any other value without that own property it is \<^verbatim>\<open>undefined\<close>.
\<close>

fun get_prop :: "jsval \<Rightarrow> string \<Rightarrow> jsval option" where
  "get_prop Undefined k = None"
| "get_prop Null k = None"
| "get_prop (Obj ps) k = (case map_of ps k of None \<Rightarrow> Some Undefined | Some v \<Rightarrow> Some v)"
| "get_prop _ k = Some Undefined"

section \<open>JSON.stringify\<close>

definition dq :: char where "dq = CHR 0x22"
definition bs :: char where "bs = CHR 0x5C"

definition hex_char :: "nat \<Rightarrow> char" where
  "hex_char d = ''0123456789abcdef'' ! d"

text \<open>QuoteJSONString, one code unit at a time.\<close>

definition esc_char :: "char \<Rightarrow> string" where
  "esc_char c =
     (if c = dq then [bs, dq]
      else if c = bs then [bs, bs]
      else if c = CHR 0x08 then [bs, CHR ''b'']
      else if c = CHR 0x0C then [bs, CHR ''f'']
      else if c = CHR 0x0A then [bs, CHR ''n'']
      else if c = CHR 0x0D then [bs, CHR ''r'']
      else if c = CHR 0x09 then [bs, CHR ''t'']
      else if (of_char c :: nat) < 32
        then [bs, CHR ''u'', CHR ''0'', CHR ''0'',
              hex_char (of_char c div 16), hex_char (of_char c mod 16)]
      else [c])"

definition quote :: "string \<Rightarrow> string" where
  "quote s = dq # concat (map esc_char s) @ [dq]"

text \<open>
  SerializeJSONProperty without a replacer or indent: a finite number is written as
  ToString writes it, \<open>NaN\<close> and the infinities are written \<^verbatim>\<open>null\<close>, an \<^verbatim>\<open>undefined\<close>
  array element is written \<^verbatim>\<open>null\<close>, an \<^verbatim>\<open>undefined\<close> property is left out.
\<close>

fun json_text :: "jsval \<Rightarrow> string" where
  "json_text Undefined = ''null''"
| "json_text Null = ''null''"
| "json_text (Bool b) = (if b then ''true'' else ''false'')"
| "json_text (Num (Fin n)) = Number_toString n"
| "json_text (Num NaN) = ''null''"
| "json_text (Num PosInf) = ''null''"
| "json_text (Num NegInf) = ''null''"
| "json_text (Str s) = quote s"
| "json_text (Arr xs) = ''['' @ join '','' (map json_text xs) @ '']''"
| "json_text (Obj ps) =
     ''{'' @ join '','' (map (\<lambda>p. quote (fst p) @ '':'' @ json_text (snd p))
                          (filter (\<lambda>p. snd p \<noteq> Undefined) ps)) @ ''}''"

text \<open>\<^verbatim>\<open>JSON.stringify(v)\<close>: \<^verbatim>\<open>undefined\<close> for \<^verbatim>\<open>undefined\<close>, a string otherwise.\<close>

definition JSON_stringify :: "jsval \<Rightarrow> jsval" where
  "JSON_stringify v = (if v = Undefined then Undefined else Str (json_text v))"

section \<open>JSON.parse\<close>

text \<open>
  A recursive-descent reader of the JSON grammar (ECMA-404): insignificant whitespace,
  the three literals, strings with their escapes, arrays and objects. Two forms are
  outside the model and answered \<open>Outside_model\<close> as soon as the reader meets them,
  whatever follows: a number token continued by a fraction or an exponent, and a
  \<^verbatim>\<open>\u\<close> escape above \<^verbatim>\<open>00ff\<close>. Everything else that is not JSON is a \<open>SyntaxError\<close>,
  which \<^verbatim>\<open>JSON.parse\<close> throws.
\<close>

datatype parse_error = SyntaxError | Outside_model | Out_of_fuel

definition is_ws :: "char \<Rightarrow> bool" where
  "is_ws c = (of_char c \<in> {9, 10, 13, 32 :: nat})"

definition skip_ws :: "string \<Rightarrow> string" where
  "skip_ws s = dropWhile is_ws s"

definition hex_val :: "char \<Rightarrow> nat option" where
  "hex_val c =
     (let n = (of_char c :: nat) in
      if 48 \<le> n \<and> n \<le> 57 then Some (n - 48)
      else if 65 \<le> n \<and> n \<le> 70 then Some (n - 55)
      else if 97 \<le> n \<and> n \<le> 102 then Some (n - 87)
      else None)"

definition hex4 :: "char \<Rightarrow> char \<Rightarrow> char \<Rightarrow> char \<Rightarrow> nat option" where
  "hex4 a b c d =
     (case (hex_val a, hex_val b, hex_val c, hex_val d) of
        (Some w, Some x, Some y, Some z) \<Rightarrow> Some (((w * 16 + x) * 16 + y) * 16 + z)
      | _ \<Rightarrow> None)"

definition unescape :: "char \<Rightarrow> char option" where
  "unescape e =
     (if e = dq then Some dq
      else if e = bs then Some bs
      else if e = CHR ''/'' then Some CHR ''/''
      else if e = CHR ''b'' then Some (CHR 0x08)
      else if e = CHR ''f'' then Some (CHR 0x0C)
      else if e = CHR ''n'' then Some (CHR 0x0A)
      else if e = CHR ''r'' then Some (CHR 0x0D)
      else if e = CHR ''t'' then Some (CHR 0x09)
      else None)"

definition cons_char :: "char \<Rightarrow> parse_error + string \<times> string \<Rightarrow> parse_error + string \<times> string" where
  "cons_char c r = (case r of Inl e \<Rightarrow> Inl e | Inr (s, rest) \<Rightarrow> Inr (c # s, rest))"

text \<open>The characters of a string after its opening quote, up to the closing one.\<close>

fun parse_chars :: "string \<Rightarrow> parse_error + string \<times> string" where
  "parse_chars [] = Inl SyntaxError"
| "parse_chars (c # cs) =
     (if c = dq then Inr ([], cs)
      else if c = bs then
        (case cs of
           [] \<Rightarrow> Inl SyntaxError
         | e # cs1 \<Rightarrow>
             if e = CHR ''u'' then
               (case cs1 of
                  h1 # h2 # h3 # h4 # cs2 \<Rightarrow>
                    (case hex4 h1 h2 h3 h4 of
                       None \<Rightarrow> Inl SyntaxError
                     | Some n \<Rightarrow>
                         if n < 256 then cons_char (char_of n) (parse_chars cs2)
                         else Inl Outside_model)
                | _ \<Rightarrow> Inl SyntaxError)
             else
               (case unescape e of
                  None \<Rightarrow> Inl SyntaxError
                | Some ch \<Rightarrow> cons_char ch (parse_chars cs1)))
      else if (of_char c :: nat) < 32 then Inl SyntaxError
      else cons_char c (parse_chars cs))"

text \<open>
  A number token: an optional minus, then 0 or a run of digits that does not start with 0.
  Its value is the double nearest to the integer it spells.
\<close>

definition parse_number :: "string \<Rightarrow> parse_error + jsval \<times> string" where
  "parse_number s =
     (let neg = (s \<noteq> [] \<and> hd s = CHR ''-'');
          s1 = (if neg then tl s else s);
          ds = takeWhile is_digit s1;
          rest = dropWhile is_digit s1
      in if ds = [] then Inl SyntaxError
         else if hd ds = CHR ''0'' \<and> length ds > 1 then Inl SyntaxError
         else if rest \<noteq> [] \<and> hd rest \<in> set ''.eE'' then Inl Outside_model
         else Inr (Num (to_double (if neg then - int (read_nat ds) else int (read_nat ds))),
                   rest))"

definition parse_literal :: "string \<Rightarrow> jsval \<Rightarrow> string \<Rightarrow> parse_error + jsval \<times> string" where
  "parse_literal l v s =
     (if prefix l s then Inr (v, drop (length l) s) else Inl SyntaxError)"

text \<open>
  CreateDataProperty on the object under construction: a key that is present keeps its
  place and takes the new value; a new array-index key goes among the index keys in
  ascending order, ahead of the other keys; any other new key goes last.
\<close>

definition is_index :: "string \<Rightarrow> bool" where
  "is_index k =
     (k \<noteq> [] \<and> list_all is_digit k \<and> (k = ''0'' \<or> hd k \<noteq> CHR ''0'')
      \<and> read_nat k < 4294967295)"

fun insert_index :: "string \<Rightarrow> jsval \<Rightarrow> (string \<times> jsval) list \<Rightarrow> (string \<times> jsval) list" where
  "insert_index k v [] = [(k, v)]"
| "insert_index k v (p # ps) =
     (if is_index (fst p) \<and> read_nat (fst p) < read_nat k then p # insert_index k v ps
      else (k, v) # p # ps)"

definition obj_put :: "(string \<times> jsval) \<Rightarrow> (string \<times> jsval) list \<Rightarrow> (string \<times> jsval) list" where
  "obj_put p ps =
     (if map_of ps (fst p) \<noteq> None then AList.update (fst p) (snd p) ps
      else if is_index (fst p) then insert_index (fst p) (snd p) ps
      else ps @ [p])"

text \<open>
  The fuel bounds the recursion. \<open>JSON_parse\<close> supplies two units per character, which
  no text can use up (lemma \<open>JSON_parse_fuel\<close> below).
\<close>

fun parse_value :: "nat \<Rightarrow> string \<Rightarrow> parse_error + jsval \<times> string"
  and parse_elements :: "nat \<Rightarrow> string \<Rightarrow> parse_error + jsval list \<times> string"
  and parse_members :: "nat \<Rightarrow> string \<Rightarrow> parse_error + (string \<times> jsval) list \<times> string"
where
  "parse_value 0 s = Inl Out_of_fuel"
| "parse_value (Suc n) s =
     (case skip_ws s of
        [] \<Rightarrow> Inl SyntaxError
      | c # cs \<Rightarrow>
          if c = CHR ''n'' then parse_literal ''ull'' Null cs
          else if c = CHR ''t'' then parse_literal ''rue'' (Bool True) cs
          else if c = CHR ''f'' then parse_literal ''alse'' (Bool False) cs
          else if c = dq then
            (case parse_chars cs of
               Inl e \<Rightarrow> Inl e
             | Inr (str, rest) \<Rightarrow> Inr (Str str, rest))
          else if c = CHR ''['' then
            (case skip_ws cs of
               [] \<Rightarrow> Inl SyntaxError
             | d # rest \<Rightarrow>
                 if d = CHR '']'' then Inr (Arr [], rest)
                 else
                   (case parse_elements n cs of
                      Inl e \<Rightarrow> Inl e
                    | Inr (vs, rest1) \<Rightarrow> Inr (Arr vs, rest1)))
          else if c = CHR ''{'' then
            (case skip_ws cs of
               [] \<Rightarrow> Inl SyntaxError
             | d # rest \<Rightarrow>
                 if d = CHR ''}'' then Inr (Obj [], rest)
                 else
                   (case parse_members n cs of
                      Inl e \<Rightarrow> Inl e
                    | Inr (ps, rest1) \<Rightarrow> Inr (Obj (foldl (\<lambda>ob p. obj_put p ob) [] ps), rest1)))
          else if c = CHR ''-'' \<or> is_digit c then parse_number (c # cs)
          else Inl SyntaxError)"
| "parse_elements 0 s = Inl Out_of_fuel"
| "parse_elements (Suc n) s =
     (case parse_value n s of
        Inl e \<Rightarrow> Inl e
      | Inr (v, rest) \<Rightarrow>
          (case skip_ws rest of
             [] \<Rightarrow> Inl SyntaxError
           | d # rest1 \<Rightarrow>
               if d = CHR '','' then
                 (case parse_elements n rest1 of
                    Inl e \<Rightarrow> Inl e
                  | Inr (vs, rest2) \<Rightarrow> Inr (v # vs, rest2))
               else if d = CHR '']'' then Inr ([v], rest1)
               else Inl SyntaxError))"
| "parse_members 0 s = Inl Out_of_fuel"
| "parse_members (Suc n) s =
     (case skip_ws s of
        [] \<Rightarrow> Inl SyntaxError
      | q # cs \<Rightarrow>
          if q \<noteq> dq then Inl SyntaxError
          else
            (case parse_chars cs of
               Inl e \<Rightarrow> Inl e
             | Inr (k, rest) \<Rightarrow>
                 (case skip_ws rest of
                    [] \<Rightarrow> Inl SyntaxError
                  | col # rest1 \<Rightarrow>
                      if col \<noteq> CHR '':'' then Inl SyntaxError
                      else
                        (case parse_value n rest1 of
                           Inl e \<Rightarrow> Inl e
                         | Inr (v, rest2) \<Rightarrow>
                             (case skip_ws rest2 of
                                [] \<Rightarrow> Inl SyntaxError
                              | d # rest3 \<Rightarrow>
                                  if d = CHR '','' then
                                    (case parse_members n rest3 of
                                       Inl e \<Rightarrow> Inl e
                                     | Inr (ps, rest4) \<Rightarrow> Inr ((k, v) # ps, rest4))
                                  else if d = CHR ''}'' then Inr ([(k, v)], rest3)
                                  else Inl SyntaxError)))))"

text \<open>\<^verbatim>\<open>JSON.parse(text)\<close>: one value, then nothing but whitespace.\<close>

definition JSON_parse :: "string \<Rightarrow> parse_error + jsval" where
  "JSON_parse s =
     (case parse_value (2 * length s + 2) s of
        Inl e \<Rightarrow> Inl e
      | Inr (v, rest) \<Rightarrow> if skip_ws rest = [] then Inr v else Inl SyntaxError)"

section \<open>The host and the closure of one \<^verbatim>\<open>GMLib()\<close> call\<close>

text \<open>
  What the code reads and writes: the console, the page's \<^verbatim>\<open>localStorage\<close>, the
  user script's value store (\<^verbatim>\<open>GM_getValue\<close> and friends), the time of the host, and
  the one variable of the \<^verbatim>\<open>GMLib\<close> closure that is ever reassigned: the function
  \<^verbatim>\<open>debug\<close>. A store is the list of its key/value pairs, so that its keys can be listed.
\<close>

datatype level = Debug | Warn | Error

text \<open>An argument of a log call: a value, or the producer function \<^verbatim>\<open>f\<close> itself.\<close>

datatype logarg = Val jsval | Fn

datatype debug_fn = Console_debug | Noop

record state =
  debug_fn :: debug_fn
  console :: "(level \<times> logarg list) list"
  localStorage :: "(string \<times> string) list"
  GM_values :: "(string \<times> jsval) list"
  time_value :: int

text \<open>
  \<^verbatim>\<open>new Date().getTime()\<close>. The time value of a date is an integer number of
  milliseconds of at most 8.64e15 in magnitude (ECMAScript, Time Values and Time Range);
  the clock reads the time of the host within that range.
\<close>

definition max_time :: int where
  "max_time = 8640000000000000"

definition clock :: "state \<Rightarrow> int" where
  "clock s = max (- max_time) (min max_time (time_value s))"

definition console_log :: "level \<Rightarrow> logarg list \<Rightarrow> state \<Rightarrow> state" where
  "console_log l args s = s\<lparr>console := console s @ [(l, Val (Str ''[GMLib]'') # args)]\<rparr>"

text \<open>
  \<^verbatim>\<open>debug\<close> is called through the closure variable, which \<^verbatim>\<open>Cache\<close> may have replaced
  by \<^verbatim>\<open>() => undefined\<close>; \<^verbatim>\<open>warn\<close> and \<^verbatim>\<open>error\<close> are never reassigned.
\<close>

definition debug :: "logarg list \<Rightarrow> state \<Rightarrow> state" where
  "debug args s = (case debug_fn s of Console_debug \<Rightarrow> console_log Debug args s | Noop \<Rightarrow> s)"

definition warn :: "logarg list \<Rightarrow> state \<Rightarrow> state" where
  "warn args s = console_log Warn args s"

definition error :: "logarg list \<Rightarrow> state \<Rightarrow> state" where
  "error args s = console_log Error args s"

section \<open>GMXHR.get\<close>

text \<open>
  The host answers the request by calling \<^verbatim>\<open>onload\<close> with a response, or never
  (\<open>None\<close>); the promise then stays pending, as the code passes no other callback.
  The headers only travel to the host and are left out.
\<close>

record response =
  status :: int
  statusText :: string
  responseText :: string

text \<open>
  The fate of a promise: resolved, rejected, or pending for ever. \<open>Outside\<close> is not a
  fate: it marks a call whose course depends on a number or a text that the model does
  not represent.
\<close>

datatype outcome = Resolved jsval | Rejected jsval | Pending | Outside

definition GMXHR_get :: "string \<Rightarrow> response option \<Rightarrow> state \<Rightarrow> outcome \<times> state" where
  "GMXHR_get url resp s =
     (let s1 = debug [Val (Str ''GMXHR GET''), Val (Str url)] s in
      case resp of
        None \<Rightarrow> (Pending, s1)
      | Some r \<Rightarrow>
          if status r \<ge> 200 \<and> status r < 300 then (Resolved (Str (responseText r)), s1)
          else (Rejected (Num (Fin (status r))),
                error [Val (Str ''Failed to get: ''), Val (Str url),
                       Val (Str ('' ('' @ ToString (Num (Fin (status r))) @ '') '')),
                       Val (Str (statusText r))] s1))"

section \<open>Cache\<close>

subsection \<open>The storage adapters\<close>

text \<open>
  \<^verbatim>\<open>siteStorage()\<close> and \<^verbatim>\<open>scriptStorage()\<close> each return an object of four functions;
  here the adapter is a tag and the four functions dispatch on it. \<^verbatim>\<open>localStorage\<close>
  holds strings only (an assignment converts its value with ToString) and answers
  \<^verbatim>\<open>undefined\<close> for a key it does not hold; the cache's keys all start with
  \<^verbatim>\<open>gmlib|\<close>, so none names a method of the storage object.
\<close>

datatype storage_adapter = SiteStorage | ScriptStorage

fun storage_get :: "storage_adapter \<Rightarrow> string \<Rightarrow> state \<Rightarrow> jsval" where
  "storage_get SiteStorage key s =
     (case map_of (localStorage s) key of None \<Rightarrow> Undefined | Some v \<Rightarrow> Str v)"
| "storage_get ScriptStorage key s =
     (case map_of (GM_values s) key of None \<Rightarrow> Undefined | Some v \<Rightarrow> v)"

fun storage_set :: "storage_adapter \<Rightarrow> string \<Rightarrow> jsval \<Rightarrow> state \<Rightarrow> state" where
  "storage_set SiteStorage key v s =
     s\<lparr>localStorage := AList.update key (ToString v) (localStorage s)\<rparr>"
| "storage_set ScriptStorage key v s =
     s\<lparr>GM_values := AList.update key v (GM_values s)\<rparr>"

fun storage_delete :: "storage_adapter \<Rightarrow> string \<Rightarrow> state \<Rightarrow> state" where
  "storage_delete SiteStorage key s = s\<lparr>localStorage := AList.delete key (localStorage s)\<rparr>"
| "storage_delete ScriptStorage key s = s\<lparr>GM_values := AList.delete key (GM_values s)\<rparr>"

fun storage_keys :: "storage_adapter \<Rightarrow> state \<Rightarrow> string list" where
  "storage_keys SiteStorage s = map fst (localStorage s)"
| "storage_keys ScriptStorage s = map fst (GM_values s)"

text \<open>\<^verbatim>\<open>chooseStorage\<close>: \<open>Inl\<close> is the thrown value.\<close>

definition invalid_storage_type :: string where
  "invalid_storage_type =
     ''Invalid storage type! Valid options are '' @ [dq] @ ''local'' @ [dq] @ '' or ''
       @ [dq] @ ''script'' @ [dq]"

definition chooseStorage :: "jsval \<Rightarrow> jsval + storage_adapter" where
  "chooseStorage storageType =
     (if storageType = Str ''local'' then Inr SiteStorage
      else if storageType = Str ''script'' then Inr ScriptStorage
      else Inl (Str invalid_storage_type))"

subsection \<open>The factory\<close>

record cache_instance =
  TTL :: number
  storage :: storage_adapter

definition NAMESPACE :: string where
  "NAMESPACE = ''gmlib|''"

datatype construction = Instance cache_instance | Throws jsval | Outside_numbers

text \<open>
  \<^verbatim>\<open>Cache(storageType, ttl, quiet)\<close>, statement by statement: the TTL, the reassignment of
  \<^verbatim>\<open>debug\<close>, then \<^verbatim>\<open>chooseStorage()\<close>. \<open>Outside_numbers\<close>: \<^verbatim>\<open>ttl\<close> converts to a number
  the model does not hold.
\<close>

definition Cache :: "jsval \<Rightarrow> jsval \<Rightarrow> jsval \<Rightarrow> state \<Rightarrow> construction \<times> state" where
  "Cache storageType ttl quiet s =
     (case ToNumber (js_or ttl (Num (Fin (3600 * 24 * 2)))) of
        None \<Rightarrow> (Outside_numbers, s)
      | Some n \<Rightarrow>
          (let ttl_ms = times_num n (Fin 1000);
               s1 = (if truthy quiet then s\<lparr>debug_fn := Noop\<rparr> else s)
           in case chooseStorage storageType of
                Inl e \<Rightarrow> (Throws e, s1)
              | Inr st \<Rightarrow> (Instance \<lparr>TTL = ttl_ms, storage = st\<rparr>, s1)))"

subsection \<open>cache(key, f)\<close>

text \<open>
  A producer \<^verbatim>\<open>f\<close> is what calling it does: it returns a value that is not a promise,
  throws, or returns a promise that fulfils, rejects or never settles; and it may change
  the host on the way (for a promise: up to the moment it settles).
\<close>

datatype produced =
    Returns jsval
  | Raises jsval
  | Promise_fulfilled jsval
  | Promise_rejected jsval
  | Promise_pending

type_synonym producer = "state \<Rightarrow> produced \<times> state"

text \<open>
  The result of one call: the fate of the promise it returns, how many times it called
  \<^verbatim>\<open>f\<close> (bookkeeping of the model), and the state it leaves.
\<close>

record cache_run =
  promise :: outcome
  invoked :: nat
  post :: state

text \<open>The object that line 133 serialises: \<^verbatim>\<open>{stored: ..., value: ...}\<close>.\<close>

definition entry :: "int \<Rightarrow> jsval \<Rightarrow> jsval" where
  "entry t v = Obj [(''stored'', Num (Fin t)), (''value'', v)]"

text \<open>
  Lines 127 to 140, reached when the entry is absent or expired. The body runs inside
  \<^verbatim>\<open>new Promise(async resolve => ...)\<close>: an exception there (a throw of \<^verbatim>\<open>f\<close>, the
  \<^verbatim>\<open>await\<close> of a rejected promise) rejects the promise of the async executor, which
  nobody holds, and \<^verbatim>\<open>resolve\<close> is never called: the promise that \<^verbatim>\<open>cache\<close> returned
  stays pending. \<open>awaited\<close> is \<^verbatim>\<open>value\<close> after line 130, where control gets there.
\<close>

definition awaited :: "produced \<Rightarrow> jsval option" where
  "awaited r =
     (case r of
        Returns v \<Rightarrow> Some v
      | Promise_fulfilled v \<Rightarrow> Some v
      | Raises e \<Rightarrow> None
      | Promise_rejected e \<Rightarrow> None
      | Promise_pending \<Rightarrow> None)"

definition refresh :: "cache_instance \<Rightarrow> string \<Rightarrow> producer \<Rightarrow> state \<Rightarrow> cache_run" where
  "refresh inst key f s =
     (let s1 = debug [Val (Str (''Cache miss for key '' @ [dq] @ key @ [dq] @ '', calling'')), Fn] s;
          (r, s2) = f s1
      in case awaited r of
           None \<Rightarrow> \<lparr>promise = Pending, invoked = 1, post = s2\<rparr>
         | Some v \<Rightarrow>
             (let s3 =
                (if v \<noteq> Undefined \<and> v \<noteq> Null
                 then storage_set (storage inst) (NAMESPACE @ key)
                        (JSON_stringify (entry (clock s2) v)) s2
                 else warn [Val (Str ''Cache: WARNING Refusing to cache null or undefined return value of ''), Fn] s2)
              in \<lparr>promise = Resolved v, invoked = 1, post = s3\<rparr>))"

text \<open>
  Lines 112 to 142. \<^verbatim>\<open>JSON.parse\<close> converts its argument with ToString. A SyntaxError
  of \<^verbatim>\<open>JSON.parse\<close> and the TypeError of \<^verbatim>\<open>item.stored\<close> on \<^verbatim>\<open>null\<close> are exceptions in the
  async executor, as above.
\<close>

definition cache :: "cache_instance \<Rightarrow> string \<Rightarrow> producer \<Rightarrow> state \<Rightarrow> cache_run" where
  "cache inst key f s =
     (let itemJson = storage_get (storage inst) (NAMESPACE @ key) s in
      if truthy itemJson then
        (case JSON_parse (ToString itemJson) of
           Inl SyntaxError \<Rightarrow> \<lparr>promise = Pending, invoked = 0, post = s\<rparr>
         | Inl Outside_model \<Rightarrow> \<lparr>promise = Outside, invoked = 0, post = s\<rparr>
         | Inl Out_of_fuel \<Rightarrow> \<lparr>promise = Outside, invoked = 0, post = s\<rparr>
         | Inr item \<Rightarrow>
             (case get_prop item ''stored'' of
                None \<Rightarrow> \<lparr>promise = Pending, invoked = 0, post = s\<rparr>
              | Some stored \<Rightarrow>
                  (case ToNumber stored of
                     None \<Rightarrow> \<lparr>promise = Outside, invoked = 0, post = s\<rparr>
                   | Some t \<Rightarrow>
                       (let since = minus_num (Fin (clock s)) t;
                            expired = gt_num since (TTL inst)
                        in if \<not> expired then
                             (case get_prop item ''value'' of
                                None \<Rightarrow> \<lparr>promise = Pending, invoked = 0, post = s\<rparr>
                              | Some v \<Rightarrow> \<lparr>promise = Resolved v, invoked = 0, post = s\<rparr>)
                           else refresh inst key f s))))
      else refresh inst key f s)"

subsection \<open>cache.clear(prefix)\<close>

text \<open>
  \<^verbatim>\<open>NAMESPACE + (prefix||'')\<close> concatenates strings, so a prefix that is not a string is
  converted with ToString. \<^verbatim>\<open>forEach(storage.delete)\<close> deletes the matching keys one
  after the other.
\<close>

definition clear :: "cache_instance \<Rightarrow> jsval \<Rightarrow> state \<Rightarrow> state" where
  "clear inst pfx s =
     (let s1 = (if truthy pfx
                then debug [Val (Str ''Cache: Clearing all cached items with prefix:''), Val pfx] s
                else debug [Val (Str ''Cache: Clearing all cached items'')] s);
          keyPrefix = NAMESPACE @ ToString (js_or pfx (Str ''''))
      in fold (storage_delete (storage inst))
              (filter (\<lambda>k. prefix keyPrefix k) (storage_keys (storage inst) s1)) s1)"

section \<open>JSON-serialisable values\<close>

text \<open>
  The values of the model that JSON represents as they are: \<^verbatim>\<open>null\<close>, the booleans, the
  safe integers, the strings, and the arrays and objects of such values, every object with
  distinct keys in property order (array-index keys first, in ascending order). So no
  \<^verbatim>\<open>undefined\<close>, no \<open>NaN\<close>, no infinity and no integer from \<open>2^53\<close> on, at any depth.
\<close>

fun canonical :: "string list \<Rightarrow> bool" where
  "canonical [] = True"
| "canonical (k # ks) =
     (k \<notin> set ks
      \<and> list_all (\<lambda>k'. is_index k' \<longrightarrow> is_index k \<and> read_nat k < read_nat k') ks
      \<and> canonical ks)"

fun plain :: "jsval \<Rightarrow> bool" where
  "plain Undefined = False"
| "plain Null = True"
| "plain (Bool b) = True"
| "plain (Num (Fin n)) = safe_int n"
| "plain (Num NaN) = False"
| "plain (Num PosInf) = False"
| "plain (Num NegInf) = False"
| "plain (Str s) = True"
| "plain (Arr xs) = list_all plain xs"
| "plain (Obj ps) = (canonical (map fst ps) \<and> list_all (\<lambda>p. plain (snd p)) ps)"

text \<open>
  For the proof that such values read back: what may follow a value inside a text, the
  statement proved by induction on the value, and the text of one object member.
\<close>

definition ok_rest :: "string \<Rightarrow> bool" where
  "ok_rest rest = (rest = [] \<or> hd rest \<in> set '',]}'')"

definition reads_back :: "jsval \<Rightarrow> bool" where
  "reads_back v =
     (\<forall>n rest. length (json_text v) \<le> n \<longrightarrow> ok_rest rest \<longrightarrow>
        parse_value n (json_text v @ rest) = Inr (v, rest))"

definition member_text :: "string \<times> jsval \<Rightarrow> string" where
  "member_text p = quote (fst p) @ '':'' @ json_text (snd p)"

section \<open>Concrete hosts and producers for the examples\<close>

text \<open>An empty host at time 1000, and a cache over \<^verbatim>\<open>localStorage\<close> with a TTL of one day.\<close>

definition host0 :: state where
  "host0 = \<lparr>debug_fn = Console_debug, console = [], localStorage = [], GM_values = [],
            time_value = 1000\<rparr>"

definition day_cache :: cache_instance where
  "day_cache = \<lparr>TTL = Fin 86400000, storage = SiteStorage\<rparr>"

text \<open>Producers: \<^verbatim>\<open>() => "8.9"\<close>, \<^verbatim>\<open>() => null\<close>, \<^verbatim>\<open>() => NaN\<close>,
  \<^verbatim>\<open>() => { throw "boom" }\<close> and \<^verbatim>\<open>() => Promise.reject(404)\<close>.\<close>

definition rating :: producer where
  "rating s = (Returns (Str ''8.9''), s)"

definition returns_null :: producer where
  "returns_null s = (Returns Null, s)"

definition returns_nan :: producer where
  "returns_nan s = (Returns (Num NaN), s)"

definition throws_boom :: producer where
  "throws_boom s = (Raises (Str ''boom''), s)"

definition rejects_404 :: producer where
  "rejects_404 s = (Promise_rejected (Num (Fin 404)), s)"

text \<open>The host after \<^verbatim>\<open>cache("rating", () => "8.9")\<close>, and the same one second later.\<close>

definition host1 :: state where
  "host1 = post (cache day_cache ''rating'' rating host0)"

definition host2 :: state where
  "host2 = host1\<lparr>time_value := 2000\<rparr>"

text \<open>A host whose \<^verbatim>\<open>localStorage\<close> holds text that is not JSON under a cache key.\<close>

definition host_garbage :: state where
  "host_garbage = host0\<lparr>localStorage := [(''gmlib|k'', ''not json'')]\<rparr>"

text \<open>The same key holding JSON that is no entry: an object without \<^verbatim>\<open>stored\<close>.\<close>

definition host_unstamped :: state where
  "host_unstamped = host0\<lparr>localStorage := [(''gmlib|k'', ''{}'')]\<rparr>"

text \<open>
  A \<^verbatim>\<open>localStorage\<close> with three keys of the cache, one of them an entry long expired,
  and a key of another script.
\<close>

definition host_mixed :: state where
  "host_mixed = host0\<lparr>localStorage :=
     [(''gmlib|imdb:1'', ''{}''), (''other'', ''x''), (''gmlib|tmdb:1'', ''{}''),
      (''gmlib|imdb:2'', json_text (entry 0 (Str ''old'')))], time_value := 999999999999\<rparr>"

text \<open>
  One closure, two instances: a first cache built without \<^verbatim>\<open>quiet\<close>, then the host after
  \<^verbatim>\<open>Cache('script', undefined, true)\<close> built a second, quiet one.
\<close>

definition loud_cache :: cache_instance where
  "loud_cache = \<lparr>TTL = Fin 172800000, storage = SiteStorage\<rparr>"

definition host_after_quiet :: state where
  "host_after_quiet = snd (Cache (Str ''script'') Undefined (Bool True) host0)"

text \<open>A cache built with \<^verbatim>\<open>ttl = -1\<close>.\<close>

definition negative_cache :: cache_instance where
  "negative_cache = \<lparr>TTL = Fin (- 1000), storage = SiteStorage\<rparr>"

text \<open>
  A cache built with a TTL of 16000000000000 seconds, and a host that holds, at time
  8000000000000001, an entry stored at time -8000000000000000.
\<close>

definition long_cache :: cache_instance where
  "long_cache = \<lparr>TTL = Fin 16000000000000000, storage = SiteStorage\<rparr>"

definition host_ancient :: state where
  "host_ancient = host0\<lparr>localStorage :=
     [(''gmlib|k'', json_text (entry (- 8000000000000000) (Str ''old'')))],
     time_value := 8000000000000001\<rparr>"

section \<open>Doubles and the clock\<close>

text \<open>A safe integer is its own double; rounding never turns a non-zero integer into zero.\<close>

lemma to_double_safe: "safe_int n \<Longrightarrow> to_double n = Fin n"
  by (simp add: to_double_def)

lemma bit_length_bound: "0 < a \<Longrightarrow> 2 ^ (bit_length a - 1) \<le> a"
proof (induction a rule: bit_length.induct)
  case (1 n)
  show ?case
  proof (cases "n div 2 \<le> 0")
    case True
    then have "bit_length n = 1"
      using "1.prems"
      by (simp add: bit_length.simps [of n] bit_length.simps [of "n div 2"] bit_length.simps [of 0])
    then show ?thesis using "1.prems" by simp
  next
    case False
    then have "2 ^ (bit_length (n div 2) - 1) \<le> n div 2"
      using 1 by simp
    moreover have "bit_length (n div 2) \<noteq> 0"
      using False by (simp add: bit_length.simps [of "n div 2"])
    moreover have "bit_length n = Suc (bit_length (n div 2))"
      using "1.prems" by (simp add: bit_length.simps [of n])
    ultimately have "2 ^ (bit_length n - 1) \<le> 2 * (n div 2)"
      by (cases "bit_length (n div 2)") auto
    then show ?thesis by linarith
  qed
qed

lemma round_magnitude_pos: "0 < a \<Longrightarrow> 0 < round_magnitude a"
proof -
  assume a: "0 < a"
  let ?e = "bit_length a - 53"
  have "(2::int) ^ ?e \<le> 2 ^ (bit_length a - 1)"
    by (rule power_increasing) simp_all
  then have "2 ^ ?e \<le> a" using bit_length_bound [OF a] by linarith
  then have "0 < a div 2 ^ ?e" by (simp add: pos_imp_zdiv_pos_iff)
  then show ?thesis using a by (simp add: round_magnitude_def Let_def)
qed

lemma to_double_zero: "to_double n = Fin 0 \<Longrightarrow> n = 0"
proof (rule ccontr)
  assume t: "to_double n = Fin 0" and n: "n \<noteq> 0"
  then have "0 < round_magnitude \<bar>n\<bar>" by (intro round_magnitude_pos) simp
  then show False using t n by (auto simp: to_double_def Let_def split: if_splits)
qed

lemma to_double_nonneg:
  "0 \<le> n \<Longrightarrow> to_double n = PosInf \<or> (\<exists>m. to_double n = Fin m \<and> 0 \<le> m)"
proof (cases "n = 0")
  case True
  then show ?thesis by (simp add: to_double_def safe_int_def)
next
  case False
  assume "0 \<le> n"
  then have "0 < round_magnitude n" using False by (intro round_magnitude_pos) simp
  then show ?thesis using \<open>0 \<le> n\<close> by (auto simp: to_double_def Let_def)
qed

lemma Number_toString_safe: "safe_int n \<Longrightarrow> Number_toString n = show_int n"
  by (simp add: Number_toString_def)

lemma minus_num_safe: "safe_int (a - b) \<Longrightarrow> minus_num (Fin a) (Fin b) = Fin (a - b)"
  by (simp add: to_double_safe)

text \<open>
  Beyond the safe integers: a difference that rounds (ties to even), a number token that
  \<^verbatim>\<open>JSON.parse\<close> rounds, and numbers that \<^verbatim>\<open>JSON.stringify\<close> writes with the fewest
  digits and in exponent form.
\<close>

lemma rounding_examples:
  "minus_num (Fin 8000000000000001) (Fin (- 8000000000000000)) = Fin 16000000000000000"
  "times_num (Fin 9007199254740991) (Fin 1000) = Fin 9007199254740990976"
  "JSON_parse ''9007199254740993'' = Inr (Num (Fin 9007199254740992))"
  "json_text (Num (Fin 1152921504606846976)) = ''1152921504606847000''"
  "json_text (Num (Fin 1000000000000000000000)) = ''1e+21''"
  by code_simp+

text \<open>The clock reads a safe integer, and only the time of the host moves it.\<close>

lemma safe_clock: "safe_int (clock s)"
  by (simp add: safe_int_def clock_def max_time_def)

lemma clock_updates:
  "clock (s\<lparr>console := c\<rparr>) = clock s"
  "clock (s\<lparr>localStorage := l\<rparr>) = clock s"
  "clock (s\<lparr>GM_values := g\<rparr>) = clock s"
  "clock (s\<lparr>debug_fn := d\<rparr>) = clock s"
  by (simp_all add: clock_def)

lemma clock_time_value:
  "\<bar>t\<bar> \<le> 8640000000000000 \<Longrightarrow> clock (s\<lparr>time_value := t\<rparr>) = t"
  by (simp add: clock_def max_time_def)

section \<open>JSON.parse never runs out of fuel\<close>

text \<open>
  Every successful step of the reader consumes input, so two units of fuel per character
  are never used up: \<open>Out_of_fuel\<close> is not a result of \<open>JSON_parse\<close>.
\<close>

lemma length_skip_ws: "length (skip_ws s) \<le> length s"
  by (simp add: skip_ws_def length_dropWhile_le)

lemma skip_ws_Cons: "skip_ws s = c # cs \<Longrightarrow> length cs < length s"
  using length_skip_ws [of s] by simp

lemma cons_char_Inr: "cons_char c r = Inr (s, rest) \<Longrightarrow> \<exists>s'. r = Inr (s', rest)"
  by (auto simp: cons_char_def split: sum.splits prod.splits)

lemma parse_chars_consumes: "parse_chars cs = Inr (s, rest) \<Longrightarrow> length rest < length cs"
proof (induction cs arbitrary: s rule: parse_chars.induct)
  case 1
  then show ?case by simp
next
  case (2 c cs)
  show ?case
  proof (cases "c = dq")
    case True
    then show ?thesis using "2.prems" by simp
  next
    case nq: False
    show ?thesis
    proof (cases "c = bs")
      case True
      then obtain e cs1 where cs: "cs = e # cs1"
        using "2.prems" nq by (cases cs) auto
      show ?thesis
      proof (cases "e = CHR ''u''")
        case u: True
        then obtain h1 h2 h3 h4 cs2 where cs1: "cs1 = h1 # h2 # h3 # h4 # cs2"
          using "2.prems" nq True cs
          by (auto split: list.splits)
        then obtain n where n: "hex4 h1 h2 h3 h4 = Some n" "n < 256"
          using "2.prems" nq True cs u
          by (auto split: option.splits if_splits)
        then obtain s' where s': "parse_chars cs2 = Inr (s', rest)"
          using "2.prems" nq True cs u cs1 by (auto dest: cons_char_Inr)
        have "length rest < length cs2"
          using "2.IH"(1) [OF nq True cs u, of h1 "h2 # h3 # h4 # cs2" h2 "h3 # h4 # cs2"
                              h3 "h4 # cs2" h4 cs2 n s'] cs1 n s'
          by simp
        then show ?thesis using cs cs1 by simp
      next
        case nu: False
        then obtain ch where ch: "unescape e = Some ch"
          using "2.prems" nq True cs by (auto split: option.splits)
        then obtain s' where "parse_chars cs1 = Inr (s', rest)"
          using "2.prems" nq True cs nu by (auto dest: cons_char_Inr)
        then have "length rest < length cs1"
          using "2.IH"(2) [OF nq True cs nu ch] by simp
        then show ?thesis using cs by simp
      qed
    next
      case nb: False
      then have c32: "\<not> (of_char c :: nat) < 32"
        using "2.prems" nq by (auto split: if_splits)
      then obtain s' where "parse_chars cs = Inr (s', rest)"
        using "2.prems" nq nb by (auto dest: cons_char_Inr)
      then have "length rest < length cs"
        using "2.IH"(3) [OF nq nb c32] by simp
      then show ?thesis by simp
    qed
  qed
qed

lemma parse_number_consumes: "parse_number s = Inr (v, rest) \<Longrightarrow> length rest < length s"
proof -
  assume a: "parse_number s = Inr (v, rest)"
  let ?s1 = "if s \<noteq> [] \<and> hd s = CHR ''-'' then tl s else s"
  have r: "rest = dropWhile is_digit ?s1" and d: "takeWhile is_digit ?s1 \<noteq> []"
    using a by (auto simp: parse_number_def Let_def split: if_splits)
  have "length (takeWhile is_digit ?s1) + length (dropWhile is_digit ?s1) = length ?s1"
    by (metis length_append takeWhile_dropWhile_id)
  then have "length rest < length ?s1" using r d by (cases "takeWhile is_digit ?s1") auto
  moreover have "length ?s1 \<le> length s" by simp
  ultimately show ?thesis by simp
qed

lemma parse_literal_consumes: "parse_literal l v s = Inr (v', rest) \<Longrightarrow> length rest \<le> length s"
  by (auto simp: parse_literal_def split: if_splits)

lemma parse_number_fuel: "parse_number s \<noteq> Inl Out_of_fuel"
  by (simp add: parse_number_def Let_def)

lemma parse_literal_fuel: "parse_literal l v s \<noteq> Inl Out_of_fuel"
  by (simp add: parse_literal_def)

lemma cons_char_fuel: "r \<noteq> Inl Out_of_fuel \<Longrightarrow> cons_char c r \<noteq> Inl Out_of_fuel"
  by (auto simp: cons_char_def split: sum.splits prod.splits)

lemma parse_chars_fuel: "parse_chars cs \<noteq> Inl Out_of_fuel"
proof (induction cs rule: parse_chars.induct)
  case 1
  then show ?case by simp
next
  case (2 c cs)
  show ?case
  proof (cases "c = dq")
    case True
    then show ?thesis by simp
  next
    case nq: False
    show ?thesis
    proof (cases "c = bs")
      case True
      show ?thesis
      proof (cases cs)
        case Nil
        then show ?thesis using nq True by simp
      next
        case (Cons e cs1)
        show ?thesis
        proof (cases "e = CHR ''u''")
          case u: True
          show ?thesis
          proof (cases "\<exists>h1 h2 h3 h4 cs2. cs1 = h1 # h2 # h3 # h4 # cs2")
            case False
            then have "(case cs1 of h1 # h2 # h3 # h4 # cs2 \<Rightarrow>
                          (case hex4 h1 h2 h3 h4 of None \<Rightarrow> Inl SyntaxError
                           | Some n \<Rightarrow> if n < 256 then cons_char (char_of n) (parse_chars cs2)
                                        else Inl Outside_model)
                        | _ \<Rightarrow> Inl SyntaxError) = Inl SyntaxError"
              by (auto split: list.splits)
            then show ?thesis using nq True Cons u by simp
          next
            case ex: True
            then obtain h1 h2 h3 h4 cs2 where cs1: "cs1 = h1 # h2 # h3 # h4 # cs2" by blast
            show ?thesis
            proof (cases "hex4 h1 h2 h3 h4")
              case None
              then show ?thesis using nq True Cons u cs1 by simp
            next
              case (Some n)
              show ?thesis
              proof (cases "n < 256")
                case lt: True
                have "parse_chars cs2 \<noteq> Inl Out_of_fuel"
                  using "2.IH"(1) [OF nq True Cons u, of h1 "h2 # h3 # h4 # cs2" h2 "h3 # h4 # cs2"
                                      h3 "h4 # cs2" h4 cs2 n] cs1 Some lt
                  by simp
                then show ?thesis
                  using nq True Cons u cs1 Some lt by (simp add: cons_char_fuel)
              next
                case False
                then show ?thesis using nq True Cons u cs1 Some by simp
              qed
            qed
          qed
        next
          case nu: False
          show ?thesis
          proof (cases "unescape e")
            case None
            then show ?thesis using nq True Cons nu by simp
          next
            case (Some ch)
            have "parse_chars cs1 \<noteq> Inl Out_of_fuel"
              using "2.IH"(2) [OF nq True Cons nu Some] .
            then show ?thesis
              using nq True Cons nu Some by (simp add: cons_char_fuel)
          qed
        qed
      qed
    next
      case nb: False
      show ?thesis
      proof (cases "(of_char c :: nat) < 32")
        case True
        then show ?thesis using nq nb by simp
      next
        case False
        have "parse_chars cs \<noteq> Inl Out_of_fuel"
          using "2.IH"(3) [OF nq nb False] .
        then show ?thesis using nq nb False by (simp add: cons_char_fuel)
      qed
    qed
  qed
qed

lemma parse_consumes:
  "(\<forall>v rest. parse_value n s = Inr (v, rest) \<longrightarrow> length rest < length s)"
  "(\<forall>vs rest. parse_elements n s = Inr (vs, rest) \<longrightarrow> length rest < length s)"
  "(\<forall>ps rest. parse_members n s = Inr (ps, rest) \<longrightarrow> length rest < length s)"
proof (induction n s and n s and n s rule: parse_value_parse_elements_parse_members.induct)
  case (1 s)
  then show ?case by simp
next
  case (2 n s)
  show ?case
  proof (intro allI impI)
    fix v rest
    assume a: "parse_value (Suc n) s = Inr (v, rest)"
    then obtain c cs where sk: "skip_ws s = c # cs"
      by (cases "skip_ws s") auto
    have l: "length cs < length s" using sk by (rule skip_ws_Cons)
    consider (lit) "c = CHR ''n'' \<or> c = CHR ''t'' \<or> c = CHR ''f''"
      | (str) "c \<noteq> CHR ''n''" "c \<noteq> CHR ''t''" "c \<noteq> CHR ''f''" "c = dq"
      | (arr) "c \<noteq> CHR ''n''" "c \<noteq> CHR ''t''" "c \<noteq> CHR ''f''" "c \<noteq> dq" "c = CHR ''[''"
      | (obj) "c \<noteq> CHR ''n''" "c \<noteq> CHR ''t''" "c \<noteq> CHR ''f''" "c \<noteq> dq" "c \<noteq> CHR ''[''" "c = CHR ''{''"
      | (num) "c \<noteq> CHR ''n''" "c \<noteq> CHR ''t''" "c \<noteq> CHR ''f''" "c \<noteq> dq" "c \<noteq> CHR ''[''" "c \<noteq> CHR ''{''"
      by blast
    then show "length rest < length s"
    proof cases
      case lit
      then have "length rest \<le> length cs"
        using a sk by (auto dest: parse_literal_consumes)
      then show ?thesis using l by simp
    next
      case str
      then obtain str' where "parse_chars cs = Inr (str', rest)"
        using a sk by (auto split: sum.splits)
      then have "length rest < length cs" by (rule parse_chars_consumes)
      then show ?thesis using l by simp
    next
      case arr
      obtain d r where d: "skip_ws cs = d # r"
        using a sk arr by (cases "skip_ws cs") auto
      show ?thesis
      proof (cases "d = CHR '']''")
        case True
        then have "rest = r" using a sk arr d by simp
        then show ?thesis using skip_ws_Cons [OF d] l by simp
      next
        case False
        then obtain vs where "parse_elements n cs = Inr (vs, rest)"
          using a sk arr d by (auto split: sum.splits)
        then have "length rest < length cs"
          using "2.IH"(1) [OF sk arr d False] by blast
        then show ?thesis using l by simp
      qed
    next
      case obj
      obtain d r where d: "skip_ws cs = d # r"
        using a sk obj by (cases "skip_ws cs") auto
      show ?thesis
      proof (cases "d = CHR ''}''")
        case True
        then have "rest = r" using a sk obj d by simp
        then show ?thesis using skip_ws_Cons [OF d] l by simp
      next
        case False
        then obtain ps where "parse_members n cs = Inr (ps, rest)"
          using a sk obj d by (auto split: sum.splits)
        then have "length rest < length cs"
          using "2.IH"(2) [OF sk obj d False] by blast
        then show ?thesis using l by simp
      qed
    next
      case num
      then have "parse_number (c # cs) = Inr (v, rest)"
        using a sk by (auto split: if_splits)
      then have "length rest < length (c # cs)" by (rule parse_number_consumes)
      then show ?thesis using length_skip_ws [of s] sk by simp
    qed
  qed
next
  case (3 s)
  then show ?case by simp
next
  case (4 n s)
  show ?case
  proof (intro allI impI)
    fix vs rest
    assume a: "parse_elements (Suc n) s = Inr (vs, rest)"
    then obtain v r where v: "parse_value n s = Inr (v, r)"
      by (auto split: sum.splits)
    then have lr: "length r < length s" using "4.IH"(1) by blast
    obtain d r1 where d: "skip_ws r = d # r1"
      using a v by (cases "skip_ws r") auto
    have l1: "length r1 < length r" using d by (rule skip_ws_Cons)
    show "length rest < length s"
    proof (cases "d = CHR '',''")
      case True
      then obtain vs' where "parse_elements n r1 = Inr (vs', rest)"
        using a v d by (auto split: sum.splits)
      then have "length rest < length r1"
        using "4.IH"(2) [OF v refl d True] by blast
      then show ?thesis using l1 lr by simp
    next
      case False
      then have "rest = r1" using a v d by (auto split: if_splits)
      then show ?thesis using l1 lr by simp
    qed
  qed
next
  case (5 s)
  then show ?case by simp
next
  case (6 n s)
  show ?case
  proof (intro allI impI)
    fix ps rest
    assume a: "parse_members (Suc n) s = Inr (ps, rest)"
    then obtain q cs where sk: "skip_ws s = q # cs"
      by (cases "skip_ws s") auto
    have q: "q = dq" using a sk by (auto split: if_splits)
    have l: "length cs < length s" using sk by (rule skip_ws_Cons)
    obtain k r where k: "parse_chars cs = Inr (k, r)"
      using a sk q by (auto split: sum.splits)
    then have lr: "length r < length cs" by (rule parse_chars_consumes)
    obtain col r1 where c: "skip_ws r = col # r1"
      using a sk q k by (cases "skip_ws r") auto
    have col: "col = CHR '':''" using a sk q k c by (auto split: if_splits)
    have l1: "length r1 < length r" using c by (rule skip_ws_Cons)
    obtain v r2 where v: "parse_value n r1 = Inr (v, r2)"
      using a sk q k c col by (auto split: sum.splits)
    have nq: "\<not> q \<noteq> dq" using q by simp
    have nc: "\<not> col \<noteq> CHR '':''" using col by simp
    have l2: "length r2 < length r1"
      using "6.IH"(1) [OF sk nq k refl c nc] v by blast
    obtain d r3 where d: "skip_ws r2 = d # r3"
      using a sk q k c col v by (cases "skip_ws r2") auto
    have l3: "length r3 < length r2" using d by (rule skip_ws_Cons)
    show "length rest < length s"
    proof (cases "d = CHR '',''")
      case True
      then obtain ps' where "parse_members n r3 = Inr (ps', rest)"
        using a sk q k c col v d by (auto split: sum.splits)
      then have "length rest < length r3"
        using "6.IH"(2) [OF sk nq k refl c nc v refl d True] by blast
      then show ?thesis using l l1 l2 l3 lr by simp
    next
      case False
      then have "rest = r3" using a sk q k c col v d by (auto split: if_splits)
      then show ?thesis using l l1 l2 l3 lr by simp
    qed
  qed
qed

lemma parse_fuel:
  "2 * length s + 1 \<le> n \<longrightarrow> parse_value n s \<noteq> Inl Out_of_fuel"
  "2 * length s + 2 \<le> n \<longrightarrow> parse_elements n s \<noteq> Inl Out_of_fuel"
  "2 * length s + 2 \<le> n \<longrightarrow> parse_members n s \<noteq> Inl Out_of_fuel"
proof (induction n s and n s and n s rule: parse_value_parse_elements_parse_members.induct)
  case (1 s)
  then show ?case by simp
next
  case (2 n s)
  show ?case
  proof (intro impI notI)
    assume b: "2 * length s + 1 \<le> Suc n"
    assume a: "parse_value (Suc n) s = Inl Out_of_fuel"
    then obtain c cs where sk: "skip_ws s = c # cs"
      by (cases "skip_ws s") auto
    have l: "length cs < length s" using sk by (rule skip_ws_Cons)
    consider (lit) "c = CHR ''n'' \<or> c = CHR ''t'' \<or> c = CHR ''f''"
      | (str) "c \<noteq> CHR ''n''" "c \<noteq> CHR ''t''" "c \<noteq> CHR ''f''" "c = dq"
      | (arr) "c \<noteq> CHR ''n''" "c \<noteq> CHR ''t''" "c \<noteq> CHR ''f''" "c \<noteq> dq" "c = CHR ''[''"
      | (obj) "c \<noteq> CHR ''n''" "c \<noteq> CHR ''t''" "c \<noteq> CHR ''f''" "c \<noteq> dq" "c \<noteq> CHR ''[''" "c = CHR ''{''"
      | (num) "c \<noteq> CHR ''n''" "c \<noteq> CHR ''t''" "c \<noteq> CHR ''f''" "c \<noteq> dq" "c \<noteq> CHR ''[''" "c \<noteq> CHR ''{''"
      by blast
    then show False
    proof cases
      case lit
      then show ?thesis using a sk parse_literal_fuel by (auto split: if_splits)
    next
      case str
      then show ?thesis
        using a sk parse_chars_fuel [of cs] by (auto split: sum.splits)
    next
      case arr
      obtain d r where d: "skip_ws cs = d # r"
        using a sk arr by (cases "skip_ws cs") auto
      have nd: "d \<noteq> CHR '']''" using a sk arr d by auto
      then have "parse_elements n cs = Inl Out_of_fuel"
        using a sk arr d by (auto split: sum.splits)
      moreover have "2 * length cs + 2 \<le> n" using b l by simp
      ultimately show ?thesis using "2.IH"(1) [OF sk arr d nd] by blast
    next
      case obj
      obtain d r where d: "skip_ws cs = d # r"
        using a sk obj by (cases "skip_ws cs") auto
      have nd: "d \<noteq> CHR ''}''" using a sk obj d by auto
      then have "parse_members n cs = Inl Out_of_fuel"
        using a sk obj d by (auto split: sum.splits)
      moreover have "2 * length cs + 2 \<le> n" using b l by simp
      ultimately show ?thesis using "2.IH"(2) [OF sk obj d nd] by blast
    next
      case num
      then show ?thesis
        using a sk parse_number_fuel [of "c # cs"] by (auto split: if_splits)
    qed
  qed
next
  case (3 s)
  then show ?case by simp
next
  case (4 n s)
  show ?case
  proof (intro impI notI)
    assume b: "2 * length s + 2 \<le> Suc n"
    assume a: "parse_elements (Suc n) s = Inl Out_of_fuel"
    have "parse_value n s \<noteq> Inl Out_of_fuel" using "4.IH"(1) b by simp
    then obtain v r where v: "parse_value n s = Inr (v, r)"
      using a by (auto split: sum.splits)
    then have lr: "length r < length s" using parse_consumes(1) by blast
    obtain d r1 where d: "skip_ws r = d # r1"
      using a v by (cases "skip_ws r") auto
    have l1: "length r1 < length r" using d by (rule skip_ws_Cons)
    have c: "d = CHR '',''" using a v d by (auto split: if_splits)
    then have "parse_elements n r1 = Inl Out_of_fuel"
      using a v d by (auto split: sum.splits)
    moreover have "2 * length r1 + 2 \<le> n" using b l1 lr by simp
    ultimately show False using "4.IH"(2) [OF v refl d c] by blast
  qed
next
  case (5 s)
  then show ?case by simp
next
  case (6 n s)
  show ?case
  proof (intro impI notI)
    assume b: "2 * length s + 2 \<le> Suc n"
    assume a: "parse_members (Suc n) s = Inl Out_of_fuel"
    then obtain q cs where sk: "skip_ws s = q # cs"
      by (cases "skip_ws s") auto
    have q: "q = dq" using a sk by (auto split: if_splits)
    have l: "length cs < length s" using sk by (rule skip_ws_Cons)
    obtain k r where k: "parse_chars cs = Inr (k, r)"
      using a sk q parse_chars_fuel [of cs] by (auto split: sum.splits)
    then have lr: "length r < length cs" by (rule parse_chars_consumes)
    obtain col r1 where c: "skip_ws r = col # r1"
      using a sk q k by (cases "skip_ws r") auto
    have col: "col = CHR '':''" using a sk q k c by (auto split: if_splits)
    have l1: "length r1 < length r" using c by (rule skip_ws_Cons)
    have nq: "\<not> q \<noteq> dq" using q by simp
    have nc: "\<not> col \<noteq> CHR '':''" using col by simp
    have "2 * length r1 + 1 \<le> n" using b l lr l1 by simp
    then have "parse_value n r1 \<noteq> Inl Out_of_fuel"
      using "6.IH"(1) [OF sk nq k refl c nc] by blast
    then obtain v r2 where v: "parse_value n r1 = Inr (v, r2)"
      using a sk q k c col by (auto split: sum.splits)
    have l2: "length r2 < length r1" using parse_consumes(1) v by blast
    obtain d r3 where d: "skip_ws r2 = d # r3"
      using a sk q k c col v by (cases "skip_ws r2") auto
    have l3: "length r3 < length r2" using d by (rule skip_ws_Cons)
    have cm: "d = CHR '',''" using a sk q k c col v d by (auto split: if_splits)
    then have "parse_members n r3 = Inl Out_of_fuel"
      using a sk q k c col v d by (auto split: sum.splits)
    moreover have "2 * length r3 + 2 \<le> n" using b l lr l1 l2 l3 by simp
    ultimately show False
      using "6.IH"(2) [OF sk nq k refl c nc v refl d cm] by blast
  qed
qed

lemma JSON_parse_fuel: "JSON_parse s \<noteq> Inl Out_of_fuel"
proof -
  have "parse_value (2 * length s + 2) s \<noteq> Inl Out_of_fuel"
    using parse_fuel(1) [of s "2 * length s + 2"] by simp
  then show ?thesis
    unfolding JSON_parse_def
    by (cases "parse_value (2 * length s + 2) s") (auto split: prod.splits simp del: parse_value.simps)
qed

section \<open>JSON.parse reads back what JSON.stringify wrote\<close>

subsection \<open>Numbers\<close>

lemma digit_char_is_digit: "d < 10 \<Longrightarrow> is_digit (digit_char d)"
proof -
  assume "d < 10"
  then have "d \<in> {0,1,2,3,4,5,6,7,8,9}" by auto
  then show ?thesis by (auto simp: is_digit_def digit_char_def)
qed

lemma digit_val_digit_char: "d < 10 \<Longrightarrow> digit_val (digit_char d) = d"
proof -
  assume "d < 10"
  then have "d \<in> {0,1,2,3,4,5,6,7,8,9}" by auto
  then show ?thesis by (auto simp: digit_val_def digit_char_def)
qed

lemma show_nat_digits: "list_all is_digit (show_nat n)"
  by (induction n rule: show_nat.induct) (subst show_nat.simps, simp add: digit_char_is_digit)

lemma show_nat_nonempty: "show_nat n \<noteq> []"
  by (subst show_nat.simps) simp

lemma read_nat_snoc: "read_nat (ds @ [c]) = 10 * read_nat ds + digit_val c"
  by (simp add: read_nat_def)

lemma read_show_nat: "read_nat (show_nat n) = n"
proof (induction n rule: show_nat.induct)
  case (1 n)
  show ?case
  proof (cases "n < 10")
    case True
    then show ?thesis
      by (subst show_nat.simps) (simp add: read_nat_def digit_val_digit_char)
  next
    case False
    then show ?thesis
      using 1 by (subst show_nat.simps) (simp add: read_nat_snoc digit_val_digit_char)
  qed
qed

lemma hd_show_nat: "hd (show_nat n) = CHR ''0'' \<Longrightarrow> length (show_nat n) = 1"
proof (induction n rule: show_nat.induct)
  case (1 n)
  show ?case
  proof (cases "n < 10")
    case True
    then show ?thesis by (subst show_nat.simps) simp
  next
    case False
    then have "hd (show_nat (n div 10)) = CHR ''0''"
      using "1.prems" show_nat_nonempty [of "n div 10"]
      by (subst (asm) show_nat.simps) simp
    then have "length (show_nat (n div 10)) = 1" using 1 False by simp
    then obtain c where c: "show_nat (n div 10) = [c]"
      by (cases "show_nat (n div 10)") auto
    have "n div 10 \<noteq> 0" using False by auto
    moreover have "read_nat [c] = n div 10" using read_show_nat [of "n div 10"] c by simp
    moreover have "c = CHR ''0''" using \<open>hd (show_nat (n div 10)) = CHR ''0''\<close> c by simp
    ultimately show ?thesis by (simp add: read_nat_def digit_val_def)
  qed
qed

lemma ok_rest_simps:
  "ok_rest []" "ok_rest (CHR '','' # r)" "ok_rest (CHR '']'' # r)" "ok_rest (CHR ''}'' # r)"
  by (simp_all add: ok_rest_def)

lemma takeWhile_digits:
  "list_all is_digit ds \<Longrightarrow> ok_rest rest \<Longrightarrow>
   takeWhile is_digit (ds @ rest) = ds \<and> dropWhile is_digit (ds @ rest) = rest"
  by (cases rest) (auto simp: ok_rest_def list_all_iff takeWhile_append2 dropWhile_append2 is_digit_def)

lemma parse_number_show_nat:
  assumes "ok_rest rest"
  shows "parse_number (show_nat n @ rest) = Inr (Num (to_double (int n)), rest)"
proof -
  have nd: "hd (show_nat n) \<noteq> CHR ''-''"
    using show_nat_digits [of n] show_nat_nonempty [of n]
    by (cases "show_nat n") (auto simp: is_digit_def)
  have tw: "takeWhile is_digit (show_nat n @ rest) = show_nat n"
       "dropWhile is_digit (show_nat n @ rest) = rest"
    using takeWhile_digits [OF show_nat_digits assms] by auto
  have r: "\<not> (rest \<noteq> [] \<and> hd rest \<in> set ''.eE'')"
    using assms by (auto simp: ok_rest_def)
  show ?thesis
    using nd show_nat_nonempty [of n] hd_show_nat [of n] r
    by (auto simp: parse_number_def Let_def tw read_show_nat)
qed

lemma parse_number_show_int:
  assumes "ok_rest rest"
  shows "parse_number (show_int i @ rest) = Inr (Num (to_double i), rest)"
proof (cases "i < 0")
  case False
  then show ?thesis
    using parse_number_show_nat [OF assms, of "nat i"] by (simp add: show_int_def)
next
  case True
  have tw: "takeWhile is_digit (show_nat (nat (- i)) @ rest) = show_nat (nat (- i))"
       "dropWhile is_digit (show_nat (nat (- i)) @ rest) = rest"
    using takeWhile_digits [OF show_nat_digits assms] by auto
  have r: "\<not> (rest \<noteq> [] \<and> hd rest \<in> set ''.eE'')"
    using assms by (auto simp: ok_rest_def)
  show ?thesis
    using True show_nat_nonempty [of "nat (- i)"] hd_show_nat [of "nat (- i)"] r
    by (auto simp: parse_number_def Let_def show_int_def tw read_show_nat)
qed

subsection \<open>Strings\<close>

lemma hex_val_hex_char: "d < 16 \<Longrightarrow> hex_val (hex_char d) = Some d"
proof -
  have "list_all (\<lambda>d. hex_val (hex_char d) = Some d) [0..<16]" by code_simp
  moreover assume "d < 16"
  ultimately show ?thesis by (simp add: list_all_iff)
qed

lemma hex_val_zero: "hex_val CHR ''0'' = Some 0"
  by (simp add: hex_val_def)

lemma hex4_low:
  "n < 256 \<Longrightarrow> hex4 CHR ''0'' CHR ''0'' (hex_char (n div 16)) (hex_char (n mod 16)) = Some n"
  by (simp add: hex4_def hex_val_zero hex_val_hex_char less_mult_imp_div_less)

lemma of_char_less_256: "(of_char c :: nat) < 256"
  by (cases c) simp

lemma parse_chars_esc:
  "parse_chars (esc_char c @ tail) = cons_char c (parse_chars tail)"
proof -
  consider (dq) "c = dq" | (bs) "c = bs"
    | (b) "c = CHR 0x08" | (f) "c = CHR 0x0C" | (n) "c = CHR 0x0A" | (r) "c = CHR 0x0D"
    | (t) "c = CHR 0x09"
    | (u) "c \<noteq> dq" "c \<noteq> bs" "c \<noteq> CHR 0x08" "c \<noteq> CHR 0x0C" "c \<noteq> CHR 0x0A" "c \<noteq> CHR 0x0D"
          "c \<noteq> CHR 0x09" "(of_char c :: nat) < 32"
    | (plain) "c \<noteq> dq" "c \<noteq> bs" "\<not> (of_char c :: nat) < 32"
    by (cases "(of_char c :: nat) < 32") auto
  then show ?thesis
  proof cases
    case dq
    then show ?thesis by (simp add: esc_char_def unescape_def dq_def bs_def)
  next
    case bs
    then show ?thesis by (simp add: esc_char_def unescape_def dq_def bs_def)
  next
    case b
    then show ?thesis by (simp add: esc_char_def unescape_def dq_def bs_def)
  next
    case f
    then show ?thesis by (simp add: esc_char_def unescape_def dq_def bs_def)
  next
    case n
    then show ?thesis by (simp add: esc_char_def unescape_def dq_def bs_def)
  next
    case r
    then show ?thesis by (simp add: esc_char_def unescape_def dq_def bs_def)
  next
    case t
    then show ?thesis by (simp add: esc_char_def unescape_def dq_def bs_def)
  next
    case u
    have e: "esc_char c = [bs, CHR ''u'', CHR ''0'', CHR ''0'',
               hex_char (of_char c div 16), hex_char (of_char c mod 16)]"
      using u by (simp add: esc_char_def)
    have h: "hex4 CHR ''0'' CHR ''0'' (hex_char (of_char c div 16)) (hex_char (of_char c mod 16))
               = Some (of_char c)"
      using hex4_low [OF of_char_less_256 [of c]] .
    show ?thesis
      unfolding e using h of_char_less_256 [of c]
      by (simp add: dq_def bs_def)
  next
    case plain
    then have "c \<noteq> CHR 0x08" "c \<noteq> CHR 0x0C" "c \<noteq> CHR 0x0A" "c \<noteq> CHR 0x0D" "c \<noteq> CHR 0x09"
      by auto
    with plain show ?thesis by (simp add: esc_char_def)
  qed
qed

lemma parse_chars_quote:
  "parse_chars (concat (map esc_char s) @ dq # rest) = Inr (s, rest)"
  by (induction s) (simp_all add: parse_chars_esc cons_char_def)

subsection \<open>Values\<close>

lemma skip_ws_nonws: "\<not> is_ws c \<Longrightarrow> skip_ws (c # cs) = c # cs"
  by (simp add: skip_ws_def)

lemma not_ws:
  "\<not> is_ws CHR ''n''" "\<not> is_ws CHR ''t''" "\<not> is_ws CHR ''f''" "\<not> is_ws dq"
  "\<not> is_ws CHR ''[''" "\<not> is_ws CHR ''{''" "\<not> is_ws CHR '']''" "\<not> is_ws CHR ''}''"
  "\<not> is_ws CHR '',''" "\<not> is_ws CHR '':''" "\<not> is_ws CHR ''-''"
  by (simp_all add: is_ws_def dq_def)

lemma digit_not_ws: "is_digit c \<Longrightarrow> \<not> is_ws c"
  by (auto simp: is_digit_def is_ws_def)

lemma pv_null: "parse_value (Suc n) (''null'' @ rest) = Inr (Null, rest)"
  by (simp add: skip_ws_nonws not_ws parse_literal_def)

lemma pv_true: "parse_value (Suc n) (''true'' @ rest) = Inr (Bool True, rest)"
  by (simp add: skip_ws_nonws not_ws parse_literal_def)

lemma pv_false: "parse_value (Suc n) (''false'' @ rest) = Inr (Bool False, rest)"
  by (simp add: skip_ws_nonws not_ws parse_literal_def)

lemma pv_str: "parse_value (Suc n) (quote s @ rest) = Inr (Str s, rest)"
  by (simp add: quote_def skip_ws_nonws not_ws parse_chars_quote) (simp add: dq_def)

lemma show_int_hd:
  "\<exists>c cs. show_int i = c # cs \<and> (c = CHR ''-'' \<or> is_digit c)"
proof (cases "i < 0")
  case True
  then show ?thesis by (simp add: show_int_def)
next
  case False
  then show ?thesis
    using show_nat_digits [of "nat i"] show_nat_nonempty [of "nat i"]
    by (cases "show_nat (nat i)") (auto simp: show_int_def)
qed

lemma pv_num:
  assumes "ok_rest rest" and "safe_int i"
  shows "parse_value (Suc n) (show_int i @ rest) = Inr (Num (Fin i), rest)"
proof -
  obtain c cs where c: "show_int i = c # cs" "c = CHR ''-'' \<or> is_digit c"
    using show_int_hd by blast
  have nw: "\<not> is_ws c" using c(2) not_ws digit_not_ws by auto
  have ne: "c \<noteq> CHR ''n''" "c \<noteq> CHR ''t''" "c \<noteq> CHR ''f''" "c \<noteq> dq" "c \<noteq> CHR ''[''" "c \<noteq> CHR ''{''"
    using c(2) by (auto simp: is_digit_def dq_def)
  have "parse_value (Suc n) (c # cs @ rest) = parse_number (c # cs @ rest)"
    using nw ne c(2) by (simp add: skip_ws_nonws)
  then show ?thesis
    using parse_number_show_int [OF assms(1), of i] c(1) to_double_safe [OF assms(2)] by simp
qed

lemma json_text_hd:
  assumes "plain v"
  shows "\<exists>c cs. json_text v = c # cs \<and> \<not> is_ws c \<and> c \<noteq> CHR '']'' \<and> c \<noteq> CHR ''}''"
proof (cases v)
  case (Num x)
  then obtain i where x: "x = Fin i" and i: "safe_int i"
    using assms by (cases x) auto
  obtain c cs where "show_int i = c # cs" "c = CHR ''-'' \<or> is_digit c"
    using show_int_hd by blast
  then show ?thesis
    using Num x i not_ws digit_not_ws by (auto simp: is_digit_def Number_toString_safe)
next
  case (Str s)
  then show ?thesis using not_ws by (simp add: quote_def dq_def)
qed (use not_ws in auto)

lemma json_text_length: "plain v \<Longrightarrow> 1 \<le> length (json_text v)"
  using json_text_hd [of v] by auto

lemma elements_read_back:
  assumes "xs \<noteq> []" and "\<forall>x \<in> set xs. plain x \<and> reads_back x"
    and "length (join '','' (map json_text xs)) < n"
  shows "parse_elements n (join '','' (map json_text xs) @ CHR '']'' # rest) = Inr (xs, rest)"
  using assms
proof (induction xs arbitrary: n rule: list_nonempty_induct)
  case (single x)
  then obtain m where n: "n = Suc m" and m: "length (json_text x) \<le> m"
    by (cases n) auto
  have "parse_value m (json_text x @ CHR '']'' # rest) = Inr (x, CHR '']'' # rest)"
    using single m by (simp add: reads_back_def ok_rest_simps)
  then show ?case
    by (simp add: n skip_ws_nonws not_ws)
next
  case (cons x xs)
  obtain y ys where xs: "xs = y # ys" using cons.hyps by (cases xs) auto
  have j: "join '','' (map json_text (x # xs))
             = json_text x @ CHR '','' # join '','' (map json_text xs)"
    by (simp add: xs)
  obtain m where n: "n = Suc m" using cons.prems by (cases n) auto
  have m: "length (json_text x) \<le> m" "length (join '','' (map json_text xs)) < m"
    using cons.prems(1,2) json_text_length [of x] unfolding j n by auto
  have 1: "parse_value m (json_text x @ CHR '','' # join '','' (map json_text xs) @ CHR '']'' # rest)
             = Inr (x, CHR '','' # join '','' (map json_text xs) @ CHR '']'' # rest)"
    using cons.prems(1) m(1) by (simp add: reads_back_def ok_rest_simps)
  have 2: "parse_elements m (join '','' (map json_text xs) @ CHR '']'' # rest) = Inr (xs, rest)"
    using cons.IH [OF _ m(2)] cons.prems(1) by simp
  show ?case
    unfolding j n by (simp add: 1 2 skip_ws_nonws not_ws)
qed

lemma array_reads_back:
  assumes "\<forall>x \<in> set xs. plain x \<and> reads_back x"
  shows "reads_back (Arr xs)"
  unfolding reads_back_def
proof (intro allI impI)
  fix n rest
  assume len: "length (json_text (Arr xs)) \<le> n" and "ok_rest rest"
  then obtain m where n: "n = Suc m" by (cases n) auto
  show "parse_value n (json_text (Arr xs) @ rest) = Inr (Arr xs, rest)"
  proof (cases xs)
    case Nil
    then show ?thesis by (simp add: n skip_ws_nonws not_ws is_ws_def dq_def bs_def)
  next
    case (Cons x xs')
    have "plain x" using assms Cons by simp
    then obtain c cs where c: "json_text x = c # cs" "\<not> is_ws c" "c \<noteq> CHR '']''"
      using json_text_hd [of x] by auto
    obtain cs' where t: "join '','' (map json_text xs) = c # cs'"
      using c(1) Cons by (cases xs') auto
    have l: "length (join '','' (map json_text xs)) < m"
      using len unfolding n by simp
    have e: "parse_elements m (join '','' (map json_text xs) @ CHR '']'' # rest) = Inr (xs, rest)"
      using elements_read_back [OF _ assms l] Cons by simp
    show ?thesis
      using e unfolding n by (simp add: t skip_ws_nonws not_ws c dq_def bs_def)
  qed
qed

subsection \<open>Objects\<close>

lemma canonical_append:
  "canonical (xs @ ys) \<Longrightarrow>
   canonical ys \<and> (\<forall>x \<in> set xs. \<forall>y \<in> set ys.
      x \<noteq> y \<and> (is_index y \<longrightarrow> is_index x \<and> read_nat x < read_nat y))"
  by (induction xs) (auto simp: list_all_iff)

lemma insert_index_last:
  "\<forall>e \<in> set acc. is_index (fst e) \<and> read_nat (fst e) < read_nat k \<Longrightarrow>
   insert_index k v acc = acc @ [(k, v)]"
  by (induction acc) auto

lemma obj_put_last:
  assumes "canonical (map fst (acc @ [p]))"
  shows "obj_put p acc = acc @ [p]"
proof -
  have c: "\<forall>x \<in> set (map fst acc). x \<noteq> fst p
             \<and> (is_index (fst p) \<longrightarrow> is_index x \<and> read_nat x < read_nat (fst p))"
    using canonical_append [of "map fst acc" "[fst p]"] assms by simp
  then have "fst p \<notin> fst ` set acc" by auto
  then have n: "map_of acc (fst p) = None" by (simp add: map_of_eq_None_iff)
  show ?thesis
  proof (cases "is_index (fst p)")
    case True
    then have "insert_index (fst p) (snd p) acc = acc @ [(fst p, snd p)]"
      using c by (intro insert_index_last) auto
    then show ?thesis using n True by (simp add: obj_put_def)
  next
    case False
    then show ?thesis using n by (simp add: obj_put_def)
  qed
qed

lemma canonical_prefix: "canonical (xs @ ys) \<Longrightarrow> canonical xs"
  by (induction xs) (auto simp: list_all_iff)

lemma foldl_obj_put:
  "canonical (map fst (acc @ ps)) \<Longrightarrow> foldl (\<lambda>ob p. obj_put p ob) acc ps = acc @ ps"
proof (induction ps arbitrary: acc)
  case Nil
  then show ?case by simp
next
  case (Cons p ps)
  have "canonical (map fst (acc @ [p]))"
    using Cons.prems canonical_prefix [of "map fst (acc @ [p])" "map fst ps"] by simp
  then have "obj_put p acc = acc @ [p]" by (rule obj_put_last)
  then show ?case using Cons.IH [of "acc @ [p]"] Cons.prems by simp
qed

lemma member_text_hd: "\<exists>cs. member_text p = dq # cs"
  by (simp add: member_text_def quote_def)

lemma member_text_length: "1 \<le> length (member_text p)"
  using member_text_hd [of p] by auto

lemma member_text_unfold:
  "member_text p @ tail
     = dq # concat (map esc_char (fst p)) @ dq # CHR '':'' # json_text (snd p) @ tail"
  by (simp add: member_text_def quote_def)

lemma members_read_back:
  assumes "ps \<noteq> []" and "\<forall>p \<in> set ps. reads_back (snd p)"
    and "length (join '','' (map member_text ps)) < n"
  shows "parse_members n (join '','' (map member_text ps) @ CHR ''}'' # rest) = Inr (ps, rest)"
  using assms
proof (induction ps arbitrary: n rule: list_nonempty_induct)
  case (single p)
  then obtain m where n: "n = Suc m" and m: "length (member_text p) \<le> m"
    by (cases n) auto
  have lv: "length (json_text (snd p)) \<le> m"
    using m by (simp add: member_text_def)
  have v: "parse_value m (json_text (snd p) @ CHR ''}'' # rest) = Inr (snd p, CHR ''}'' # rest)"
    using single lv by (simp add: reads_back_def ok_rest_simps)
  show ?case
    by (simp add: n member_text_unfold skip_ws_nonws not_ws parse_chars_quote v)
next
  case (cons p ps)
  obtain q qs where ps: "ps = q # qs" using cons.hyps by (cases ps) auto
  have j: "join '','' (map member_text (p # ps))
             = member_text p @ CHR '','' # join '','' (map member_text ps)"
    by (simp add: ps)
  obtain m where n: "n = Suc m" using cons.prems by (cases n) auto
  have m: "length (member_text p) \<le> m" "length (join '','' (map member_text ps)) < m"
    using cons.prems(2) member_text_length [of p] unfolding j n by auto
  have lv: "length (json_text (snd p)) \<le> m"
    using m(1) by (simp add: member_text_def)
  have 1: "parse_value m (json_text (snd p) @ CHR '','' # join '','' (map member_text ps) @ CHR ''}'' # rest)
             = Inr (snd p, CHR '','' # join '','' (map member_text ps) @ CHR ''}'' # rest)"
    using cons.prems(1) lv by (simp add: reads_back_def ok_rest_simps)
  have 2: "parse_members m (join '','' (map member_text ps) @ CHR ''}'' # rest) = Inr (ps, rest)"
    using cons.IH [OF _ m(2)] cons.prems(1) by simp
  show ?case
    unfolding j n
    by (simp add: member_text_unfold skip_ws_nonws not_ws parse_chars_quote 1 2)
qed

lemma object_reads_back:
  assumes "\<forall>p \<in> set ps. reads_back (snd p)"
    and "\<forall>p \<in> set ps. snd p \<noteq> Undefined"
    and "canonical (map fst ps)"
  shows "reads_back (Obj ps)"
  unfolding reads_back_def
proof (intro allI impI)
  fix n rest
  assume len: "length (json_text (Obj ps)) \<le> n" and "ok_rest rest"
  then obtain m where n: "n = Suc m" by (cases n) auto
  have f: "filter (\<lambda>p. snd p \<noteq> Undefined) ps = ps"
    using assms(2) by (simp add: filter_id_conv)
  have t: "json_text (Obj ps) = CHR ''{'' # join '','' (map member_text ps) @ ''}''"
    by (simp add: f member_text_def [abs_def])
  show "parse_value n (json_text (Obj ps) @ rest) = Inr (Obj ps, rest)"
  proof (cases ps)
    case Nil
    then show ?thesis by (simp add: n skip_ws_nonws not_ws dq_def bs_def)
  next
    case (Cons p ps')
    obtain cs where c: "member_text p = dq # cs"
      using member_text_hd by blast
    obtain cs' where j: "join '','' (map member_text ps) = dq # cs'"
      using c Cons by (cases ps') auto
    have l: "length (join '','' (map member_text ps)) < m"
      using len unfolding n t by simp
    have e: "parse_members m (join '','' (map member_text ps) @ CHR ''}'' # rest) = Inr (ps, rest)"
      using members_read_back [OF _ assms(1) l] Cons by simp
    have o: "foldl (\<lambda>ob p. obj_put p ob) [] ps = ps"
      using foldl_obj_put [of "[]" ps] assms(3) by simp
    show ?thesis
      using e unfolding n t
      by (simp add: j skip_ws_nonws not_ws o) (simp add: dq_def bs_def)
  qed
qed

lemma plain_reads_back: "plain v \<Longrightarrow> reads_back v"
proof (induction v)
  case Undefined
  then show ?case by simp
next
  case Null
  show ?case unfolding reads_back_def
  proof (intro allI impI)
    fix n rest assume "length (json_text Null) \<le> n"
    then obtain m where "n = Suc m" by (cases n) auto
    then show "parse_value n (json_text Null @ rest) = Inr (Null, rest)"
      using pv_null [of m rest] by simp
  qed
next
  case (Bool b)
  show ?case unfolding reads_back_def
  proof (intro allI impI)
    fix n rest assume "length (json_text (Bool b)) \<le> n"
    then obtain m where "n = Suc m" by (cases n) (auto split: if_splits)
    then show "parse_value n (json_text (Bool b) @ rest) = Inr (Bool b, rest)"
      using pv_true [of m rest] pv_false [of m rest] by simp
  qed
next
  case (Num x)
  then obtain i where x: "x = Fin i" and i: "safe_int i" by (cases x) auto
  show ?case unfolding reads_back_def
  proof (intro allI impI)
    fix n rest assume "length (json_text (Num x)) \<le> n" and r: "ok_rest rest"
    then obtain m where "n = Suc m"
      using json_text_length [OF Num.prems] by (cases n) auto
    then show "parse_value n (json_text (Num x) @ rest) = Inr (Num x, rest)"
      using pv_num [OF r i, of m] x i by (simp add: Number_toString_safe)
  qed
next
  case (Str s)
  show ?case unfolding reads_back_def
  proof (intro allI impI)
    fix n rest assume "length (json_text (Str s)) \<le> n"
    then obtain m where "n = Suc m" using json_text_length [of "Str s"] by (cases n) auto
    then show "parse_value n (json_text (Str s) @ rest) = Inr (Str s, rest)"
      using pv_str [of m s rest] by simp
  qed
next
  case (Arr xs)
  then have "\<forall>x \<in> set xs. plain x \<and> reads_back x" by (auto simp: list_all_iff)
  then show ?case by (rule array_reads_back)
next
  case (Obj ps)
  have 1: "\<forall>p \<in> set ps. reads_back (snd p)"
  proof
    fix p assume p: "p \<in> set ps"
    then have "plain (snd p)" using Obj.prems by (auto simp: list_all_iff)
    moreover have "snd p \<in> Basic_BNFs.snds p" by (cases p) simp
    ultimately show "reads_back (snd p)" using Obj.IH p by blast
  qed
  have 2: "\<forall>p \<in> set ps. snd p \<noteq> Undefined"
    using Obj.prems by (auto simp: list_all_iff)
  show ?case using object_reads_back [OF 1 2] Obj.prems by simp
qed

text \<open>
  Every JSON-serialisable value is read back by \<^verbatim>\<open>JSON.parse\<close> from the text that
  \<^verbatim>\<open>JSON.stringify\<close> wrote for it; the fuel of \<open>JSON_parse\<close> is enough.
\<close>

lemma JSON_parse_stringify:
  assumes "plain v"
  shows "JSON_parse (json_text v) = Inr v"
proof -
  have "length (json_text v) \<le> 2 * length (json_text v) + 2" by simp
  moreover have "ok_rest []" by (simp add: ok_rest_def)
  ultimately have "parse_value (2 * length (json_text v) + 2) (json_text v @ []) = Inr (v, [])"
    using plain_reads_back [OF assms] unfolding reads_back_def by blast
  then have "parse_value (2 * length (json_text v) + 2) (json_text v) = Inr (v, [])"
    by (simp only: append_Nil2)
  then show ?thesis
    unfolding JSON_parse_def by (simp only:) (simp add: skip_ws_def)
qed

lemma plain_entry: "plain v \<Longrightarrow> safe_int t \<Longrightarrow> plain (entry t v)"
  by (simp add: entry_def is_index_def is_digit_def)

lemma entry_reads_back:
  "plain v \<Longrightarrow> safe_int t \<Longrightarrow> JSON_parse (json_text (entry t v)) = Inr (entry t v)"
  by (rule JSON_parse_stringify) (rule plain_entry)

section \<open>Construction\<close>

text \<open>
  C9. Any storage type other than the strings \<^verbatim>\<open>local\<close> and \<^verbatim>\<open>script\<close> makes \<^verbatim>\<open>Cache\<close>
  throw (the string of \<^verbatim>\<open>chooseStorage\<close>) and never yields an instance; \<^verbatim>\<open>local\<close>
  selects the page-scoped adapter and \<^verbatim>\<open>script\<close> the script-scoped one. The TTL
  argument only has to convert to a number of the model.
\<close>

theorem Cache_storage_type:
  "(storageType \<noteq> Str ''local'' \<and> storageType \<noteq> Str ''script'' \<longrightarrow>
      (\<forall>i. fst (Cache storageType ttl quiet s) \<noteq> Instance i) \<and>
      (ToNumber (js_or ttl (Num (Fin (3600 * 24 * 2)))) \<noteq> None \<longrightarrow>
         fst (Cache storageType ttl quiet s) = Throws (Str invalid_storage_type)))
   \<and> (ToNumber (js_or ttl (Num (Fin (3600 * 24 * 2)))) = Some n \<longrightarrow>
         fst (Cache (Str ''local'') ttl quiet s)
           = Instance \<lparr>TTL = times_num n (Fin 1000), storage = SiteStorage\<rparr> \<and>
         fst (Cache (Str ''script'') ttl quiet s)
           = Instance \<lparr>TTL = times_num n (Fin 1000), storage = ScriptStorage\<rparr>)"
  by (auto simp: Cache_def chooseStorage_def Let_def split: option.splits)

theorem Cache_storage_type_witness:
  "fst (Cache (Str ''session'') Undefined Undefined host0) = Throws (Str invalid_storage_type)
   \<and> fst (Cache (Str ''local'') Undefined Undefined host0)
       = Instance \<lparr>TTL = Fin 172800000, storage = SiteStorage\<rparr>
   \<and> fst (Cache (Str ''script'') (Num (Fin 60)) Undefined host0)
       = Instance \<lparr>TTL = Fin 60000, storage = ScriptStorage\<rparr>"
  using Cache_storage_type [of "Str ''session''" Undefined Undefined host0 "Fin 172800"]
        Cache_storage_type [of "Str ''session''" "Num (Fin 60)" Undefined host0 "Fin 60"]
  by (simp add: js_or_def to_double_safe safe_int_def)

section \<open>Hits and misses\<close>

lemma invoked_refresh: "invoked (refresh inst key f s) = 1"
  by (simp add: refresh_def awaited_def Let_def split: prod.splits produced.splits option.splits)

lemma invoked_is_refresh:
  "invoked (cache inst k f s) = 1 \<Longrightarrow> cache inst k f s = refresh inst k f s"
  by (auto simp: cache_def Let_def split: if_splits sum.splits parse_error.splits option.splits)

lemma host1_entry:
  "storage_get (storage day_cache) (NAMESPACE @ ''rating'') host1
     = Str (json_text (entry 1000 (Str ''8.9'')))"
  by code_simp

lemma entry_rating_parses:
  "JSON_parse (json_text (entry 1000 (Str ''8.9''))) = Inr (entry 1000 (Str ''8.9''))"
  by code_simp

text \<open>
  C1, as the code has it. A key holds an entry stored at time \<open>T\<close> with value \<open>v\<close>, the
  TTL is \<open>t\<close> milliseconds, and the age \<open>T' - T\<close> of the entry at the time \<open>T'\<close> of the
  call (the clock of \<open>s\<close>) is a safe integer, so that the subtraction of line 117 is
  exact. A call with \<open>T' - T \<le> t\<close> resolves with \<open>v\<close>, calls the producer zero times and
  changes nothing; a call with \<open>T' - T > t\<close> takes the refresh path, which calls the
  producer once.
\<close>

theorem cache_ttl_window:
  assumes "storage_get (storage inst) (NAMESPACE @ k) s = raw"
    and "truthy raw"
    and "JSON_parse (ToString raw) = Inr item"
    and "get_prop item ''stored'' = Some (Num (Fin T))"
    and "get_prop item ''value'' = Some v"
    and "TTL inst = Fin t"
    and "safe_int (clock s - T)"
  shows "(clock s - T \<le> t \<longrightarrow>
            cache inst k f s = \<lparr>promise = Resolved v, invoked = 0, post = s\<rparr>)
       \<and> (clock s - T > t \<longrightarrow>
            cache inst k f s = refresh inst k f s \<and> invoked (cache inst k f s) = 1)"
  using assms by (auto simp: cache_def Let_def invoked_refresh to_double_safe)

theorem cache_ttl_window_witness:
  "cache day_cache ''rating'' returns_null host2
     = \<lparr>promise = Resolved (Str ''8.9''), invoked = 0, post = host2\<rparr>
   \<and> invoked (cache day_cache ''rating'' returns_null (host1\<lparr>time_value := 86401001\<rparr>)) = 1"
proof -
  let ?raw = "Str (json_text (entry 1000 (Str ''8.9'')))"
  have raw2: "storage_get (storage day_cache) (NAMESPACE @ ''rating'') host2 = ?raw"
    using host1_entry by (simp add: host2_def day_cache_def)
  have raw3: "storage_get (storage day_cache) (NAMESPACE @ ''rating'')
                (host1\<lparr>time_value := 86401001\<rparr>) = ?raw"
    using host1_entry by (simp add: day_cache_def)
  have tr: "truthy ?raw" by code_simp
  have pa: "JSON_parse (ToString ?raw) = Inr (entry 1000 (Str ''8.9''))"
    using entry_rating_parses by simp
  have st: "get_prop (entry 1000 (Str ''8.9'')) ''stored'' = Some (Num (Fin 1000))"
    by (simp add: entry_def)
  have va: "get_prop (entry 1000 (Str ''8.9'')) ''value'' = Some (Str ''8.9'')"
    by (simp add: entry_def)
  have tt: "TTL day_cache = Fin 86400000" by (simp add: day_cache_def)
  have c2: "clock host2 = 2000" by (simp add: host2_def clock_time_value)
  have c3: "clock (host1\<lparr>time_value := 86401001\<rparr>) = 86401001" by (simp add: clock_time_value)
  have s2: "safe_int (clock host2 - 1000)" by (simp add: c2 safe_int_def)
  have s3: "safe_int (clock (host1\<lparr>time_value := 86401001\<rparr>) - 1000)"
    by (simp add: c3 safe_int_def)
  show ?thesis
    using cache_ttl_window [OF raw2 tr pa st va tt s2, of returns_null]
          cache_ttl_window [OF raw3 tr pa st va tt s3, of returns_null] c2 c3
    by (simp add: invoked_refresh)
qed

text \<open>
  C1 as stated fails where the age is no safe integer: an entry stored at time
  -8000000000000000 is 16000000000000001 milliseconds old at time 8000000000000001, one
  more than the TTL of \<^verbatim>\<open>Cache('local', 16000000000000)\<close>; the subtraction rounds the
  age to 16000000000000000, which does not exceed the TTL, and the call serves the entry
  without calling the producer.
\<close>

theorem cache_ttl_rounding_counterexample:
  "fst (Cache (Str ''local'') (Num (Fin 16000000000000)) Undefined host0) = Instance long_cache
   \<and> TTL long_cache = Fin 16000000000000000
   \<and> JSON_parse (ToString (storage_get SiteStorage ''gmlib|k'' host_ancient))
       = Inr (entry (- 8000000000000000) (Str ''old''))
   \<and> clock host_ancient = 8000000000000001
   \<and> 16000000000000000 < clock host_ancient - (- 8000000000000000)
   \<and> cache long_cache ''k'' rating host_ancient
       = \<lparr>promise = Resolved (Str ''old''), invoked = 0, post = host_ancient\<rparr>"
  by code_simp

section \<open>What a refresh writes\<close>

lemma storage_get_set:
  "storage_get a key (storage_set a key (Str txt) s) = Str txt"
  by (cases a) (simp_all add: update_conv')



lemma truthy_entry_text: "truthy (Str (json_text (entry t v)))"
  by (simp add: entry_def)


text \<open>
  A state whose key holds the text of an entry that reads back as itself, read within the
  TTL (or under a TTL of \<open>NaN\<close>, which no age exceeds): a hit.
\<close>

lemma hit_on_entry:
  assumes "storage_get (storage inst) (NAMESPACE @ k) s = Str (json_text (entry T v))"
    and "JSON_parse (json_text (entry T v)) = Inr (entry T v)"
    and "\<not> gt_num (minus_num (Fin (clock s)) (Fin T)) (TTL inst)"
  shows "cache inst k g s = \<lparr>promise = Resolved v, invoked = 0, post = s\<rparr>"
  using assms truthy_entry_text [of T v]
  by (simp add: cache_def Let_def) (simp add: entry_def)



section \<open>Two calls in succession\<close>




section \<open>Round trip\<close>





section \<open>Results that are not stored\<close>

text \<open>
  What the guard of line 132 does. On a call that reaches the producer, let the producer
  yield \<^verbatim>\<open>null\<close> or \<^verbatim>\<open>undefined\<close> (returned, or the value of the promise it returned)
  and leave the state \<open>s2\<close>. The call resolves with that value and writes nothing: it only
  adds the warning to the console, and both stores are those of \<open>s2\<close>.
\<close>

lemma refused_results_not_written:
  assumes "invoked (cache inst k f s) = 1"
    and "f (debug [Val (Str (''Cache miss for key '' @ [dq] @ k @ [dq] @ '', calling'')), Fn] s)
           = (p, s2)"
    and "p = Returns v \<or> p = Promise_fulfilled v"
    and "v = Null \<or> v = Undefined"
  shows "promise (cache inst k f s) = Resolved v"
    and "post (cache inst k f s)
           = warn [Val (Str ''Cache: WARNING Refusing to cache null or undefined return value of ''), Fn] s2"
    and "localStorage (post (cache inst k f s)) = localStorage s2"
    and "GM_values (post (cache inst k f s)) = GM_values s2"
proof -
  have r: "cache inst k f s = refresh inst k f s"
    using assms(1) by (rule invoked_is_refresh)
  show "promise (cache inst k f s) = Resolved v"
    and "post (cache inst k f s)
           = warn [Val (Str ''Cache: WARNING Refusing to cache null or undefined return value of ''), Fn] s2"
    and "localStorage (post (cache inst k f s)) = localStorage s2"
    and "GM_values (post (cache inst k f s)) = GM_values s2"
    unfolding r using assms(2-4)
    by (auto simp: refresh_def awaited_def Let_def warn_def console_log_def)
qed

text \<open>
  What the guard lets through. \<open>NaN\<close> is neither \<^verbatim>\<open>null\<close> nor \<^verbatim>\<open>undefined\<close>, so a
  producer that yields it has its result stored, and \<^verbatim>\<open>JSON.stringify\<close> writes \<open>NaN\<close> as
  \<^verbatim>\<open>null\<close>: the entry left under the key is the text of an entry whose value is
  \<^verbatim>\<open>null\<close>, for every instance, key and state.
\<close>

lemma not_a_number_stored_as_null:
  assumes "invoked (cache inst k f s) = 1"
    and "f (debug [Val (Str (''Cache miss for key '' @ [dq] @ k @ [dq] @ '', calling'')), Fn] s)
           = (p, s2)"
    and "p = Returns (Num NaN) \<or> p = Promise_fulfilled (Num NaN)"
  shows "promise (cache inst k f s) = Resolved (Num NaN)"
    and "storage_get (storage inst) (NAMESPACE @ k) (post (cache inst k f s))
           = Str (json_text (entry (clock s2) Null))"
proof -
  have r: "cache inst k f s = refresh inst k f s"
    using assms(1) by (rule invoked_is_refresh)
  show "promise (cache inst k f s) = Resolved (Num NaN)"
    unfolding r using assms(2,3) by (auto simp: refresh_def awaited_def Let_def)
  have "post (refresh inst k f s)
          = storage_set (storage inst) (NAMESPACE @ k) (Str (json_text (entry (clock s2) Null))) s2"
    using assms(2,3)
    by (auto simp: refresh_def awaited_def Let_def JSON_stringify_def entry_def)
  then show "storage_get (storage inst) (NAMESPACE @ k) (post (cache inst k f s))
           = Str (json_text (entry (clock s2) Null))"
    unfolding r by (simp add: storage_get_set)
qed

text \<open>
  C4 on the code. With the producer \<^verbatim>\<open>() => NaN\<close> on an empty store, the call resolves
  with \<open>NaN\<close> and leaves under the key the text \<^verbatim>\<open>{"stored":1000,"value":null}\<close>: the
  backend holds an entry whose value is \<^verbatim>\<open>null\<close>, which the claim says is never
  persisted. The next call for the key is a hit that resolves with \<^verbatim>\<open>null\<close>, a value
  that no producer returned, and does not call its producer.
\<close>

theorem nan_result_stored_as_null:
  "promise (cache day_cache ''k'' returns_nan host0) = Resolved (Num NaN)
   \<and> invoked (cache day_cache ''k'' returns_nan host0) = 1
   \<and> storage_get SiteStorage ''gmlib|k'' (post (cache day_cache ''k'' returns_nan host0))
       = Str (''{'' @ [dq] @ ''stored'' @ [dq] @ '':1000,'' @ [dq] @ ''value'' @ [dq] @ '':null}'')
   \<and> JSON_parse (ToString (storage_get SiteStorage ''gmlib|k''
        (post (cache day_cache ''k'' returns_nan host0))))
       = Inr (Obj [(''stored'', Num (Fin 1000)), (''value'', Null)])
   \<and> promise (cache day_cache ''k'' rating (post (cache day_cache ''k'' returns_nan host0)))
       = Resolved Null
   \<and> invoked (cache day_cache ''k'' rating (post (cache day_cache ''k'' returns_nan host0)))
       = 0"
  by code_simp

section \<open>Failing producers and malformed entries\<close>

text \<open>The promise that \<^verbatim>\<open>cache\<close> returns is never rejected: the code has no path to do it.\<close>

lemma cache_never_rejects: "promise (cache inst k f s) \<noteq> Rejected e"
  by (auto simp: cache_def refresh_def awaited_def Let_def
           split: if_splits sum.splits parse_error.splits option.splits prod.splits
                  produced.splits)

text \<open>
  Whenever a call reaches a producer that throws or whose promise rejects, the promise
  of the call stays pending, and the call adds nothing to what the producer left.
\<close>

lemma failing_producer_general:
  assumes "invoked (cache inst k f s) = 1"
    and "f (debug [Val (Str (''Cache miss for key '' @ [dq] @ k @ [dq] @ '', calling'')), Fn] s)
           = (p, s2)"
    and "p = Raises e \<or> p = Promise_rejected e"
  shows "cache inst k f s = \<lparr>promise = Pending, invoked = 1, post = s2\<rparr>"
  unfolding invoked_is_refresh [OF assms(1)] using assms(2,3)
  by (auto simp: refresh_def awaited_def Let_def)

text \<open>Whenever the text under the key is not JSON, the promise stays pending.\<close>

lemma syntax_error_pending:
  assumes "truthy (storage_get (storage inst) (NAMESPACE @ k) s)"
    and "JSON_parse (ToString (storage_get (storage inst) (NAMESPACE @ k) s)) = Inl SyntaxError"
  shows "cache inst k f s = \<lparr>promise = Pending, invoked = 0, post = s\<rparr>"
  using assms by (simp add: cache_def Let_def)

text \<open>
  C3 on the code. With a producer that throws, and with one that returns a rejected
  promise, the promise returned by \<^verbatim>\<open>cache\<close> stays pending: it is not rejected with the
  producer's failure. Nothing is written to the backend.
\<close>

theorem failing_producer_pending:
  "promise (cache day_cache ''k'' throws_boom host0) = Pending
   \<and> invoked (cache day_cache ''k'' throws_boom host0) = 1
   \<and> localStorage (post (cache day_cache ''k'' throws_boom host0)) = []
   \<and> promise (cache day_cache ''k'' rejects_404 host0) = Pending
   \<and> invoked (cache day_cache ''k'' rejects_404 host0) = 1
   \<and> localStorage (post (cache day_cache ''k'' rejects_404 host0)) = []"
  by code_simp

text \<open>
  C5 on the code. With text that is not JSON under the key, the promise stays pending and
  the producer is not called; with JSON that carries no \<^verbatim>\<open>stored\<close>, the call is a hit that
  resolves with \<^verbatim>\<open>undefined\<close>, again without calling the producer.
\<close>

theorem malformed_entry_not_a_miss:
  "cache day_cache ''k'' rating host_garbage
     = \<lparr>promise = Pending, invoked = 0, post = host_garbage\<rparr>
   \<and> cache day_cache ''k'' rating host_unstamped
     = \<lparr>promise = Resolved Undefined, invoked = 0, post = host_unstamped\<rparr>"
  by code_simp

section \<open>clear\<close>

lemma fold_delete_filter:
  "fold AList.delete ks al = filter (\<lambda>e. fst e \<notin> set ks) al"
proof (induction ks arbitrary: al)
  case Nil
  then show ?case by simp
next
  case (Cons k ks)
  have "AList.delete k al = filter (\<lambda>e. fst e \<noteq> k) al"
    by (induction al) auto
  then show ?case using Cons.IH by (auto intro: filter_cong)
qed

lemma fold_storage_delete_site:
  "fold (storage_delete SiteStorage) ks s
     = s\<lparr>localStorage := fold AList.delete ks (localStorage s)\<rparr>"
  by (induction ks arbitrary: s) simp_all

lemma fold_storage_delete_script:
  "fold (storage_delete ScriptStorage) ks s
     = s\<lparr>GM_values := fold AList.delete ks (GM_values s)\<rparr>"
  by (induction ks arbitrary: s) simp_all

lemma filter_not_in_filtered_keys:
  "filter (\<lambda>e. fst e \<notin> set (filter P (map fst al))) al = filter (\<lambda>e. \<not> P (fst e)) al"
  by (rule filter_cong) auto

lemma debug_stores:
  "localStorage (debug args s) = localStorage s"
  "GM_values (debug args s) = GM_values s"
  "clock (debug args s) = clock s"
  "debug_fn (debug args s) = debug_fn s"
  by (simp_all add: debug_def console_log_def clock_updates split: debug_fn.splits)

lemma clear_prefix_string:
  "pfx = Str p \<or> (pfx = Undefined \<and> p = []) \<Longrightarrow>
   NAMESPACE @ ToString (js_or pfx (Str '''')) = ''gmlib|'' @ p"
  by (auto simp: js_or_def NAMESPACE_def)

lemma map_of_filter_keys:
  "map_of (filter (\<lambda>e. \<not> P (fst e)) al) key = (if P key then None else map_of al key)"
  by (induction al) auto

lemma fold_delete_own_keys:
  "fold AList.delete (filter P (map fst al)) al = filter (\<lambda>e. \<not> P (fst e)) al"
  unfolding fold_delete_filter by (rule filter_not_in_filtered_keys)

lemma clear_site:
  assumes "storage inst = SiteStorage"
  shows "localStorage (clear inst pfx s)
           = filter (\<lambda>e. \<not> prefix (NAMESPACE @ ToString (js_or pfx (Str ''''))) (fst e))
               (localStorage s)"
    and "GM_values (clear inst pfx s) = GM_values s"
proof -
  have "localStorage (clear inst pfx s)
          = fold AList.delete
              (filter (\<lambda>k. prefix (NAMESPACE @ ToString (js_or pfx (Str ''''))) k)
                 (map fst (localStorage s)))
              (localStorage s)"
    unfolding clear_def Let_def assms fold_storage_delete_site
    by (simp add: debug_stores del: filter_map)
  then show "localStorage (clear inst pfx s)
           = filter (\<lambda>e. \<not> prefix (NAMESPACE @ ToString (js_or pfx (Str ''''))) (fst e))
               (localStorage s)"
    unfolding fold_delete_own_keys .
  show "GM_values (clear inst pfx s) = GM_values s"
    unfolding clear_def Let_def assms fold_storage_delete_site
    by (simp add: debug_stores)
qed

lemma clear_script:
  assumes "storage inst = ScriptStorage"
  shows "GM_values (clear inst pfx s)
           = filter (\<lambda>e. \<not> prefix (NAMESPACE @ ToString (js_or pfx (Str ''''))) (fst e))
               (GM_values s)"
    and "localStorage (clear inst pfx s) = localStorage s"
proof -
  have "GM_values (clear inst pfx s)
          = fold AList.delete
              (filter (\<lambda>k. prefix (NAMESPACE @ ToString (js_or pfx (Str ''''))) k)
                 (map fst (GM_values s)))
              (GM_values s)"
    unfolding clear_def Let_def assms fold_storage_delete_script
    by (simp add: debug_stores del: filter_map)
  then show "GM_values (clear inst pfx s)
           = filter (\<lambda>e. \<not> prefix (NAMESPACE @ ToString (js_or pfx (Str ''''))) (fst e))
               (GM_values s)"
    unfolding fold_delete_own_keys .
  show "localStorage (clear inst pfx s) = localStorage s"
    unfolding clear_def Let_def assms fold_storage_delete_script
    by (simp add: debug_stores)
qed

text \<open>
  C6. For a string prefix \<open>p\<close> (or none, which counts as the empty string), \<^verbatim>\<open>clear\<close>
  leaves in the instance's store exactly the pairs whose key does not start with
  \<^verbatim>\<open>gmlib|\<close> followed by \<open>p\<close>, in their order and with their values, whatever those values
  are and whatever their age; the other store is not touched. Read through the adapter:
  a key that starts with that string is absent afterwards, every other key reads as
  before.
\<close>

theorem clear_deletes_prefix:
  assumes "pfx = Str p \<or> (pfx = Undefined \<and> p = [])"
  shows "(storage inst = SiteStorage \<longrightarrow>
            localStorage (clear inst pfx s)
              = filter (\<lambda>e. \<not> prefix (''gmlib|'' @ p) (fst e)) (localStorage s)
            \<and> GM_values (clear inst pfx s) = GM_values s)
       \<and> (storage inst = ScriptStorage \<longrightarrow>
            GM_values (clear inst pfx s)
              = filter (\<lambda>e. \<not> prefix (''gmlib|'' @ p) (fst e)) (GM_values s)
            \<and> localStorage (clear inst pfx s) = localStorage s)
       \<and> storage_get (storage inst) key (clear inst pfx s)
            = (if prefix (''gmlib|'' @ p) key then Undefined
               else storage_get (storage inst) key s)"
proof -
  note kp = clear_prefix_string [OF assms]
  show ?thesis
  proof (cases "storage inst")
    case SiteStorage
    show ?thesis
      unfolding SiteStorage storage_get.simps clear_site [OF SiteStorage] kp
      by (simp add: map_of_filter_keys)
  next
    case ScriptStorage
    show ?thesis
      unfolding ScriptStorage storage_get.simps clear_script [OF ScriptStorage] kp
      by (simp add: map_of_filter_keys)
  qed
qed

theorem clear_deletes_prefix_witness:
  "localStorage (clear day_cache (Str ''imdb:'') host_mixed)
     = [(''other'', ''x''), (''gmlib|tmdb:1'', ''{}'')]
   \<and> localStorage (clear day_cache Undefined host_mixed) = [(''other'', ''x'')]
   \<and> storage_get SiteStorage ''gmlib|imdb:2'' (clear day_cache (Str ''imdb:'') host_mixed)
       = Undefined
   \<and> storage_get SiteStorage ''gmlib|tmdb:1'' (clear day_cache (Str ''imdb:'') host_mixed)
       = Str ''{}''"
proof -
  have a: "storage day_cache = SiteStorage" by (simp add: day_cache_def)
  have l: "localStorage host_mixed =
     [(''gmlib|imdb:1'', ''{}''), (''other'', ''x''), (''gmlib|tmdb:1'', ''{}''),
      (''gmlib|imdb:2'', json_text (entry 0 (Str ''old'')))]"
    by (simp add: host_mixed_def host0_def)
  show ?thesis
    using clear_deletes_prefix [of "Str ''imdb:''" "''imdb:''" day_cache host_mixed "''gmlib|imdb:2''"]
          clear_deletes_prefix [of "Str ''imdb:''" "''imdb:''" day_cache host_mixed "''gmlib|tmdb:1''"]
          clear_deletes_prefix [of Undefined "[]" day_cache host_mixed "''other''"]
    by (simp add: a l)
qed

section \<open>The quiet flag\<close>

lemma console_fold_delete:
  "console (fold (storage_delete a) ks s) = console s"
  by (induction ks arbitrary: s) (cases a; simp)+

lemma console_storage_set: "console (storage_set a key v s) = console s"
  by (cases a) simp_all

text \<open>
  C8, as the code has it. \<^verbatim>\<open>Cache\<close> with a truthy \<^verbatim>\<open>quiet\<close> replaces the \<^verbatim>\<open>debug\<close>
  function of the closure and changes nothing else, whether or not the construction
  then succeeds. From that state on every call of \<^verbatim>\<open>debug\<close> is a no-op, whoever makes
  it: \<^verbatim>\<open>clear\<close> of any instance prints nothing, \<^verbatim>\<open>GMXHR.get\<close> prints nothing for a request
  that succeeds or is never answered, and a call of any instance that reaches the
  producer prints no line before it. \<^verbatim>\<open>warn\<close> and \<^verbatim>\<open>error\<close> still print: after the
  producer, the console gains the warning of a refused \<^verbatim>\<open>null\<close> or \<^verbatim>\<open>undefined\<close>, and
  nothing otherwise.
\<close>

theorem quiet_silences_closure:
  assumes "truthy quiet"
    and "Cache storageType ttl quiet s = (c, s')"
    and "c \<noteq> Outside_numbers"
  shows "s' = s\<lparr>debug_fn := Noop\<rparr>
       \<and> (\<forall>args. debug args s' = s')
       \<and> (\<forall>inst pfx. console (clear inst pfx s') = console s)
       \<and> (\<forall>url. GMXHR_get url None s' = (Pending, s'))
       \<and> (\<forall>url r. status r \<ge> 200 \<and> status r < 300 \<longrightarrow>
             GMXHR_get url (Some r) s' = (Resolved (Str (responseText r)), s'))
       \<and> (\<forall>inst k f p s2. invoked (cache inst k f s') = 1 \<and> f s' = (p, s2) \<longrightarrow>
             console (post (cache inst k f s'))
               = console s2 @
                 (if p \<in> {Returns Null, Returns Undefined,
                           Promise_fulfilled Null, Promise_fulfilled Undefined}
                  then [(Warn, [Val (Str ''[GMLib]''),
                          Val (Str ''Cache: WARNING Refusing to cache null or undefined return value of ''),
                          Fn])]
                  else []))
       \<and> (\<forall>args. console (warn args s') = console s @ [(Warn, Val (Str ''[GMLib]'') # args)])
       \<and> (\<forall>args. console (error args s') = console s @ [(Error, Val (Str ''[GMLib]'') # args)])"
proof -
  have s': "s' = s\<lparr>debug_fn := Noop\<rparr>"
    using assms
    by (auto simp: Cache_def Let_def split: option.splits sum.splits)
  have d: "\<And>args. debug args s' = s'"
    by (simp add: s' debug_def)
  have m: "console (post (cache inst k f s'))
             = console s2 @
               (if p \<in> {Returns Null, Returns Undefined,
                         Promise_fulfilled Null, Promise_fulfilled Undefined}
                then [(Warn, [Val (Str ''[GMLib]''),
                        Val (Str ''Cache: WARNING Refusing to cache null or undefined return value of ''),
                        Fn])]
                else [])"
    if "invoked (cache inst k f s') = 1" and "f s' = (p, s2)" for inst k f p s2
    unfolding invoked_is_refresh [OF that(1)] using that(2)
    by (cases p)
       (simp_all add: refresh_def awaited_def d Let_def console_storage_set warn_def console_log_def)
  have rest: "(\<forall>inst pfx. console (clear inst pfx s') = console s)
       \<and> (\<forall>url. GMXHR_get url None s' = (Pending, s'))
       \<and> (\<forall>url r. status r \<ge> 200 \<and> status r < 300 \<longrightarrow>
             GMXHR_get url (Some r) s' = (Resolved (Str (responseText r)), s'))
       \<and> (\<forall>args. console (warn args s') = console s @ [(Warn, Val (Str ''[GMLib]'') # args)])
       \<and> (\<forall>args. console (error args s') = console s @ [(Error, Val (Str ''[GMLib]'') # args)])"
    using d
    by (auto simp: s' clear_def Let_def console_fold_delete GMXHR_get_def
                   warn_def error_def console_log_def)
  show ?thesis using s' d m rest by blast
qed

theorem quiet_silences_closure_witness:
  "host_after_quiet = host0\<lparr>debug_fn := Noop\<rparr>
   \<and> console (clear loud_cache Undefined host_after_quiet) = []
   \<and> GMXHR_get ''http://example.org/'' None host_after_quiet = (Pending, host_after_quiet)
   \<and> console (post (cache loud_cache ''k'' returns_null host_after_quiet))
       = [(Warn, [Val (Str ''[GMLib]''),
            Val (Str ''Cache: WARNING Refusing to cache null or undefined return value of ''), Fn])]
   \<and> console (warn [Fn] host_after_quiet) = [(Warn, [Val (Str ''[GMLib]''), Fn])]"
proof -
  have c: "Cache (Str ''script'') Undefined (Bool True) host0
             = (Instance \<lparr>TTL = Fin 172800000, storage = ScriptStorage\<rparr>, host_after_quiet)"
    by (simp add: host_after_quiet_def Cache_def js_or_def chooseStorage_def to_double_safe
                  safe_int_def)
  have e: "console host0 = []" by (simp add: host0_def)
  have i: "invoked (cache loud_cache ''k'' returns_null host_after_quiet) = 1" by code_simp
  have f: "returns_null host_after_quiet = (Returns Null, host_after_quiet)"
    by (simp add: returns_null_def)
  have q: "console host_after_quiet = []" by code_simp
  have t: "truthy (Bool True)" by simp
  have n: "Instance \<lparr>TTL = Fin 172800000, storage = ScriptStorage\<rparr> \<noteq> Outside_numbers" by simp
  note th = quiet_silences_closure [OF t c n]
  from th have 1: "host_after_quiet = host0\<lparr>debug_fn := Noop\<rparr>" by blast
  from th have 2: "console (clear loud_cache Undefined host_after_quiet) = console host0" by blast
  from th have 3: "GMXHR_get ''http://example.org/'' None host_after_quiet = (Pending, host_after_quiet)"
    by blast
  from th i f have 4: "console (post (cache loud_cache ''k'' returns_null host_after_quiet))
       = console host_after_quiet @ [(Warn, [Val (Str ''[GMLib]''),
            Val (Str ''Cache: WARNING Refusing to cache null or undefined return value of ''), Fn])]"
    by auto
  from th have 5: "console (warn [Fn] host_after_quiet) = console host0 @ [(Warn, [Val (Str ''[GMLib]''), Fn])]"
    by blast
  show ?thesis using 1 2 3 4 5 e q by simp
qed

text \<open>
  C8 as stated fails: after a second, quiet instance has been built, a miss of the first
  instance (built without \<^verbatim>\<open>quiet\<close>) and a request of the HTTP client print no debug line,
  where before they printed one each.
\<close>

theorem quiet_not_per_instance_counterexample:
  "fst (Cache (Str ''local'') Undefined Undefined host0) = Instance loud_cache
   \<and> snd (Cache (Str ''local'') Undefined Undefined host0) = host0
   \<and> console (post (cache loud_cache ''k'' rating host0))
       = [(Debug, [Val (Str ''[GMLib]''),
            Val (Str (''Cache miss for key '' @ [dq] @ ''k'' @ [dq] @ '', calling'')), Fn])]
   \<and> console (post (cache loud_cache ''k'' rating host_after_quiet)) = []
   \<and> console (snd (GMXHR_get ''http://example.org/'' None host0))
       = [(Debug, [Val (Str ''[GMLib]''), Val (Str ''GMXHR GET''),
            Val (Str ''http://example.org/'')])]
   \<and> console (snd (GMXHR_get ''http://example.org/'' None host_after_quiet)) = []"
  by code_simp

section \<open>The default TTL\<close>

text \<open>
  C10, as the code has it. For every falsy \<^verbatim>\<open>ttl\<close> (\<^verbatim>\<open>undefined\<close>, \<^verbatim>\<open>null\<close>, \<^verbatim>\<open>false\<close>,
  \<^verbatim>\<open>0\<close>, \<open>NaN\<close>, the empty string) the TTL is 172800000 milliseconds; no number given as
  \<^verbatim>\<open>ttl\<close> yields a TTL of zero; and with a falsy or non-negative number \<^verbatim>\<open>ttl\<close> an entry
  read at the time it was stored is served, not expired.
\<close>

theorem Cache_ttl_default:
  assumes "chooseStorage storageType = Inr a"
  shows "(\<not> truthy ttl \<longrightarrow>
            fst (Cache storageType ttl quiet s) = Instance \<lparr>TTL = Fin 172800000, storage = a\<rparr>)
       \<and> (\<forall>i. fst (Cache storageType (Num x) quiet s) = Instance i \<longrightarrow> TTL i \<noteq> Fin 0)
       \<and> ((\<not> truthy ttl \<or> (\<exists>n. ttl = Num (Fin n) \<and> 0 \<le> n))
            \<and> fst (Cache storageType ttl quiet s) = Instance inst
            \<and> storage_get (storage inst) (NAMESPACE @ k) s1 = Str (json_text (entry (clock s1) v))
            \<and> plain v
          \<longrightarrow> cache inst k f s1 = \<lparr>promise = Resolved v, invoked = 0, post = s1\<rparr>)"
proof (intro conjI impI)
  assume "\<not> truthy ttl"
  then show "fst (Cache storageType ttl quiet s) = Instance \<lparr>TTL = Fin 172800000, storage = a\<rparr>"
    using assms by (simp add: Cache_def js_or_def Let_def to_double_safe safe_int_def)
next
  show "\<forall>i. fst (Cache storageType (Num x) quiet s) = Instance i \<longrightarrow> TTL i \<noteq> Fin 0"
  proof (cases x)
    case (Fin n)
    show ?thesis
    proof (cases "n = 0")
      case True
      then show ?thesis
        using assms Fin by (simp add: Cache_def js_or_def Let_def to_double_safe safe_int_def)
    next
      case False
      then have "to_double (n * 1000) \<noteq> Fin 0" using to_double_zero [of "n * 1000"] by auto
      then show ?thesis using assms Fin False by (simp add: Cache_def js_or_def Let_def)
    qed
  next
    case NaN
    then show ?thesis
      using assms by (simp add: Cache_def js_or_def Let_def to_double_safe safe_int_def)
  next
    case PosInf
    then show ?thesis using assms by (simp add: Cache_def js_or_def Let_def)
  next
    case NegInf
    then show ?thesis using assms by (simp add: Cache_def js_or_def Let_def)
  qed
next
  assume h: "(\<not> truthy ttl \<or> (\<exists>n. ttl = Num (Fin n) \<and> 0 \<le> n))
            \<and> fst (Cache storageType ttl quiet s) = Instance inst
            \<and> storage_get (storage inst) (NAMESPACE @ k) s1 = Str (json_text (entry (clock s1) v))
            \<and> plain v"
  have "TTL inst = PosInf \<or> (\<exists>n. TTL inst = Fin n \<and> 0 \<le> n)"
  proof (cases "truthy ttl")
    case False
    then have "TTL inst = Fin 172800000"
      using h assms by (auto simp: Cache_def js_or_def Let_def to_double_safe safe_int_def)
    then show ?thesis by simp
  next
    case True
    then obtain n where n: "ttl = Num (Fin n)" "0 \<le> n" using h by auto
    have "TTL inst = to_double (n * 1000)"
      using h assms True n by (auto simp: Cache_def js_or_def Let_def)
    then show ?thesis using to_double_nonneg [of "n * 1000"] n(2) by auto
  qed
  then have "\<not> gt_num (minus_num (Fin (clock s1)) (Fin (clock s1))) (TTL inst)"
    by (auto simp: to_double_safe safe_int_def)
  then show "cache inst k f s1 = \<lparr>promise = Resolved v, invoked = 0, post = s1\<rparr>"
    using h hit_on_entry [of inst k s1 "clock s1" v f]
          entry_reads_back [of v "clock s1"] safe_clock [of s1]
    by blast
qed

theorem Cache_ttl_default_witness:
  "fst (Cache (Str ''local'') (Num (Fin 0)) Undefined host0)
     = Instance \<lparr>TTL = Fin 172800000, storage = SiteStorage\<rparr>
   \<and> TTL loud_cache \<noteq> Fin 0
   \<and> cache loud_cache ''rating'' returns_null host1
       = \<lparr>promise = Resolved (Str ''8.9''), invoked = 0, post = host1\<rparr>"
proof -
  have a: "chooseStorage (Str ''local'') = Inr SiteStorage" by (simp add: chooseStorage_def)
  have c: "clock host1 = 1000" by code_simp
  have g: "storage_get (storage loud_cache) (NAMESPACE @ ''rating'') host1
             = Str (json_text (entry (clock host1) (Str ''8.9'')))"
    unfolding c using host1_entry by (simp add: loud_cache_def day_cache_def)
  have p: "plain (Str ''8.9'')" by simp
  have i: "fst (Cache (Str ''local'') (Num (Fin 0)) Undefined host0) = Instance loud_cache"
    by (simp add: Cache_def js_or_def chooseStorage_def loud_cache_def to_double_safe safe_int_def)
  note th = Cache_ttl_default [OF a, of "Num (Fin 0)" Undefined host0 "Fin 0" loud_cache
                                 "''rating''" host1 "Str ''8.9''" returns_null]
  from th have 1: "fst (Cache (Str ''local'') (Num (Fin 0)) Undefined host0)
     = Instance \<lparr>TTL = Fin 172800000, storage = SiteStorage\<rparr>" by simp
  from th i have 2: "TTL loud_cache \<noteq> Fin 0" by blast
  from th i g p have 3: "cache loud_cache ''rating'' returns_null host1
       = \<lparr>promise = Resolved (Str ''8.9''), invoked = 0, post = host1\<rparr>" by simp
  show ?thesis using 1 2 3 by blast
qed

text \<open>
  C10 as stated fails in its conclusion: \<^verbatim>\<open>Cache('local', -1)\<close> has a TTL of -1000
  milliseconds, under which the entry just written, read at the very time it was stored,
  is expired and the producer is called again.
\<close>

theorem negative_ttl_counterexample:
  "fst (Cache (Str ''local'') (Num (Fin (- 1))) Undefined host0) = Instance negative_cache
   \<and> invoked (cache negative_cache ''rating'' rating host0) = 1
   \<and> clock (post (cache negative_cache ''rating'' rating host0)) = 1000
   \<and> JSON_parse (ToString (storage_get SiteStorage ''gmlib|rating''
        (post (cache negative_cache ''rating'' rating host0))))
       = Inr (entry 1000 (Str ''8.9''))
   \<and> invoked (cache negative_cache ''rating'' rating
                (post (cache negative_cache ''rating'' rating host0))) = 1"
  by code_simp

end
